theory Spec2Isabelle
  imports Complex_Main
begin

section \<open>JavaScript numbers\<close>

text \<open>
  A JavaScript number is a double. The model keeps the three special values apart from
  the finite ones and idealises a finite double as a real: rounding, overflow to an
  infinity and the sign of zero are not modelled. What is proved of a value that the
  code rounds is therefore proved of the exact value only; the section on the rounded
  \<open>a\<close> of the distance says where the two part. The special values follow
  ECMAScript: \<open>NaN\<close> is contagious, \<open>0 / 0\<close> is \<open>NaN\<close>, \<open>Math.sqrt\<close> of a
  negative number is \<open>NaN\<close>, \<open>Math.max()\<close> of no argument is \<open>-Infinity\<close>.
\<close>

datatype number = Num real | NaN | PInfinity | NInfinity

fun num_neg :: "number \<Rightarrow> number" where
  "num_neg (Num x) = Num (- x)"
| "num_neg NaN = NaN"
| "num_neg PInfinity = NInfinity"
| "num_neg NInfinity = PInfinity"

fun num_add :: "number \<Rightarrow> number \<Rightarrow> number" where
  "num_add (Num x) (Num y) = Num (x + y)"
| "num_add NaN _ = NaN"
| "num_add _ NaN = NaN"
| "num_add PInfinity NInfinity = NaN"
| "num_add NInfinity PInfinity = NaN"
| "num_add PInfinity _ = PInfinity"
| "num_add _ PInfinity = PInfinity"
| "num_add NInfinity _ = NInfinity"
| "num_add _ NInfinity = NInfinity"

definition num_sub :: "number \<Rightarrow> number \<Rightarrow> number" where
  "num_sub a b = num_add a (num_neg b)"

text \<open>The product of an infinity with the finite \<open>x\<close>, by the sign of \<open>x\<close>.\<close>

definition inf_times :: "real \<Rightarrow> number" where
  "inf_times x = (if x = 0 then NaN else if 0 < x then PInfinity else NInfinity)"

fun num_mul :: "number \<Rightarrow> number \<Rightarrow> number" where
  "num_mul (Num x) (Num y) = Num (x * y)"
| "num_mul NaN _ = NaN"
| "num_mul _ NaN = NaN"
| "num_mul PInfinity (Num y) = inf_times y"
| "num_mul NInfinity (Num y) = inf_times (- y)"
| "num_mul (Num x) PInfinity = inf_times x"
| "num_mul (Num x) NInfinity = inf_times (- x)"
| "num_mul PInfinity PInfinity = PInfinity"
| "num_mul NInfinity NInfinity = PInfinity"
| "num_mul PInfinity NInfinity = NInfinity"
| "num_mul NInfinity PInfinity = NInfinity"

text \<open>Division: a zero divisor gives an infinity, or \<open>NaN\<close> for \<open>0 / 0\<close>.\<close>

fun num_div :: "number \<Rightarrow> number \<Rightarrow> number" where
  "num_div (Num x) (Num y) = (if y = 0 then inf_times x else Num (x / y))"
| "num_div NaN _ = NaN"
| "num_div _ NaN = NaN"
| "num_div (Num x) PInfinity = Num 0"
| "num_div (Num x) NInfinity = Num 0"
| "num_div PInfinity (Num y) = (if 0 \<le> y then PInfinity else NInfinity)"
| "num_div NInfinity (Num y) = (if 0 \<le> y then NInfinity else PInfinity)"
| "num_div PInfinity _ = NaN"
| "num_div NInfinity _ = NaN"

text \<open>\<open>x ** 2\<close>\<close>

fun num_sq :: "number \<Rightarrow> number" where
  "num_sq (Num x) = Num (x\<^sup>2)"
| "num_sq NaN = NaN"
| "num_sq PInfinity = PInfinity"
| "num_sq NInfinity = PInfinity"

fun Math_sin :: "number \<Rightarrow> number" where
  "Math_sin (Num x) = Num (sin x)"
| "Math_sin _ = NaN"

fun Math_cos :: "number \<Rightarrow> number" where
  "Math_cos (Num x) = Num (cos x)"
| "Math_cos _ = NaN"

fun Math_sqrt :: "number \<Rightarrow> number" where
  "Math_sqrt (Num x) = (if x < 0 then NaN else Num (sqrt x))"
| "Math_sqrt PInfinity = PInfinity"
| "Math_sqrt _ = NaN"

text \<open>The angle of the point \<open>(x, y)\<close>, in \<open>(-pi, pi]\<close>; \<open>0\<close> at the origin.\<close>

definition atan2 :: "real \<Rightarrow> real \<Rightarrow> real" where
  "atan2 y x =
     (if 0 < x then arctan (y / x)
      else if x < 0 then (if 0 \<le> y then arctan (y / x) + pi else arctan (y / x) - pi)
      else if 0 < y then pi / 2
      else if y < 0 then - (pi / 2)
      else 0)"

fun Math_atan2 :: "number \<Rightarrow> number \<Rightarrow> number" where
  "Math_atan2 (Num y) (Num x) = Num (atan2 y x)"
| "Math_atan2 NaN _ = NaN"
| "Math_atan2 _ NaN = NaN"
| "Math_atan2 (Num y) PInfinity = Num 0"
| "Math_atan2 (Num y) NInfinity = (if 0 \<le> y then Num pi else Num (- pi))"
| "Math_atan2 PInfinity (Num x) = Num (pi / 2)"
| "Math_atan2 NInfinity (Num x) = Num (- (pi / 2))"
| "Math_atan2 PInfinity PInfinity = Num (pi / 4)"
| "Math_atan2 PInfinity NInfinity = Num (3 * pi / 4)"
| "Math_atan2 NInfinity PInfinity = Num (- (pi / 4))"
| "Math_atan2 NInfinity NInfinity = Num (- (3 * pi / 4))"

fun max2 :: "number \<Rightarrow> number \<Rightarrow> number" where
  "max2 (Num x) (Num y) = Num (max x y)"
| "max2 NaN _ = NaN"
| "max2 _ NaN = NaN"
| "max2 PInfinity _ = PInfinity"
| "max2 _ PInfinity = PInfinity"
| "max2 NInfinity b = b"
| "max2 a NInfinity = a"

fun min2 :: "number \<Rightarrow> number \<Rightarrow> number" where
  "min2 (Num x) (Num y) = Num (min x y)"
| "min2 NaN _ = NaN"
| "min2 _ NaN = NaN"
| "min2 NInfinity _ = NInfinity"
| "min2 _ NInfinity = NInfinity"
| "min2 PInfinity b = b"
| "min2 a PInfinity = a"

text \<open>\<open>Math.max(...xs)\<close> and \<open>Math.min(...xs)\<close>: the arguments are folded from the
  neutral infinity, so that no argument gives that infinity.\<close>

definition Math_max :: "number list \<Rightarrow> number" where
  "Math_max xs = foldl max2 NInfinity xs"

definition Math_min :: "number list \<Rightarrow> number" where
  "Math_min xs = foldl min2 PInfinity xs"

text \<open>\<open>Math.round\<close> rounds to the nearest integer, a half towards \<open>+Infinity\<close>.\<close>

fun Math_round :: "number \<Rightarrow> number" where
  "Math_round (Num x) = Num (of_int \<lfloor>x + 1 / 2\<rfloor>)"
| "Math_round a = a"

definition Math_PI :: number where
  "Math_PI = Num pi"

section \<open>Haversine distance\<close>

text \<open>
  \<^verbatim>\<open>
  function haversine(p1, p2) {
    const R = 6371000;
    const toRad = (deg) => (deg * Math.PI) / 180;
    const dLat = toRad(p2[0] - p1[0]);
    const dLon = toRad(p2[1] - p1[1]);
    const lat1 = toRad(p1[0]);
    const lat2 = toRad(p2[0]);
    const a = Math.sin(dLat / 2) ** 2 +
      Math.cos(lat1) * Math.cos(lat2) * Math.sin(dLon / 2) ** 2;
    return R * 2 * Math.atan2(Math.sqrt(a), Math.sqrt(1 - a));
  }
  \<close>
  A point is the two-element array \<open>[lat, lng]\<close>, here a pair.
\<close>

definition toRad :: "number \<Rightarrow> number" where
  "toRad deg = num_div (num_mul deg Math_PI) (Num 180)"

definition haversine_a :: "number \<times> number \<Rightarrow> number \<times> number \<Rightarrow> number" where
  "haversine_a p1 p2 =
     (let dLat = toRad (num_sub (fst p2) (fst p1));
          dLon = toRad (num_sub (snd p2) (snd p1));
          lat1 = toRad (fst p1);
          lat2 = toRad (fst p2)
      in num_add (num_sq (Math_sin (num_div dLat (Num 2))))
           (num_mul (num_mul (Math_cos lat1) (Math_cos lat2))
              (num_sq (Math_sin (num_div dLon (Num 2))))))"

definition haversine :: "number \<times> number \<Rightarrow> number \<times> number \<Rightarrow> number" where
  "haversine p1 p2 =
     (let a = haversine_a p1 p2
      in num_mul (num_mul (Num 6371000) (Num 2))
           (Math_atan2 (Math_sqrt a) (Math_sqrt (num_sub (Num 1) a))))"

text \<open>
  The value that \<open>haversine\<close> returns, as a function of the \<open>a\<close> it has computed:
  \<^verbatim>\<open>R * 2 * Math.atan2(Math.sqrt(a), Math.sqrt(1 - a))\<close>.
\<close>

definition haversine_from_a :: "number \<Rightarrow> number" where
  "haversine_from_a a =
     num_mul (num_mul (Num 6371000) (Num 2))
       (Math_atan2 (Math_sqrt a) (Math_sqrt (num_sub (Num 1) a)))"

text \<open>The point of two finite coordinates.\<close>

definition point :: "real \<Rightarrow> real \<Rightarrow> number \<times> number" where
  "point la lo = (Num la, Num lo)"

text \<open>On finite coordinates the value of \<open>a\<close> and the distance are these reals.\<close>

definition hav :: "real \<Rightarrow> real \<Rightarrow> real \<Rightarrow> real \<Rightarrow> real" where
  "hav la1 lo1 la2 lo2 =
     (sin ((la2 - la1) * pi / 180 / 2))\<^sup>2 +
     cos (la1 * pi / 180) * cos (la2 * pi / 180) * (sin ((lo2 - lo1) * pi / 180 / 2))\<^sup>2"

definition haversine_real :: "real \<Rightarrow> real \<Rightarrow> real \<Rightarrow> real \<Rightarrow> real" where
  "haversine_real la1 lo1 la2 lo2 =
     6371000 * 2 * atan2 (sqrt (hav la1 lo1 la2 lo2)) (sqrt (1 - hav la1 lo1 la2 lo2))"

section \<open>Stores\<close>

text \<open>
  An element of the Overpass answer: \<open>el.id\<close>, \<open>el.lat\<close>, \<open>el.lon\<close> and \<open>el.tags\<close>, an
  object of string values that may be absent. The coordinates come from JSON and are
  finite.
\<close>

record element =
  el_id :: int
  el_lat :: real
  el_lon :: real
  el_tags :: "(string \<times> string) list option"

datatype size_class = Small | Medium | Large

text \<open>The normalized store. \<open>type\<close> is \<open>undefined\<close> (\<open>None\<close>) when the element has no tags.\<close>

record store =
  id_s :: int
  name :: string
  lat :: real
  lng :: real
  type_s :: "string option"
  size_s :: size_class
  raw :: "(string \<times> string) list"

text \<open>\<open>a || b\<close> on strings that may be undefined: the empty string is falsy.\<close>

definition or_else :: "string option \<Rightarrow> string \<Rightarrow> string" where
  "or_else a b = (case a of None \<Rightarrow> b | Some s \<Rightarrow> if s = [] then b else s)"

fun join :: "string \<Rightarrow> string list \<Rightarrow> string" where
  "join sep [] = []"
| "join sep [x] = x"
| "join sep (x # y # ys) = x @ sep @ join sep (y # ys)"

text \<open>\<open>toLowerCase\<close>, on the ASCII letters.\<close>

definition lower_char :: "char \<Rightarrow> char" where
  "lower_char c =
     (case map_of (zip ''ABCDEFGHIJKLMNOPQRSTUVWXYZ'' ''abcdefghijklmnopqrstuvwxyz'') c of
        Some l \<Rightarrow> l
      | None \<Rightarrow> c)"

definition toLowerCase :: "string \<Rightarrow> string" where
  "toLowerCase s = map lower_char s"

fun startsWith :: "string \<Rightarrow> string \<Rightarrow> bool" where
  "startsWith s [] = True"
| "startsWith [] (k # ks) = False"
| "startsWith (c # cs) (k # ks) = (c = k \<and> startsWith cs ks)"

fun str_includes :: "string \<Rightarrow> string \<Rightarrow> bool" where
  "str_includes [] k = (k = [])"
| "str_includes (c # cs) k = (startsWith (c # cs) k \<or> str_includes cs k)"

definition bigKeywords :: "string list" where
  "bigKeywords = [''supermarket'', ''department_store'', ''mall'']"

definition medKeywords :: "string list" where
  "medKeywords = [''grocery'', ''chemist'', ''bakery'', ''convenience'']"

text \<open>
  \<^verbatim>\<open>
  const name = (el.tags && (el.tags.name || el.tags["brand"])) || "Unnamed";
  const type = el.tags && (el.tags.shop || el.tags.amenity || "shop");
  let size = "small";
  if (el.tags) {
    const allTags = Object.values(el.tags).join(" ").toLowerCase();
    if (bigKeywords.some((k) => allTags.includes(k))) size = "large";
    else if (medKeywords.some((k) => allTags.includes(k))) size = "medium";
  }
  return { id: el.id, name, lat: el.lat, lng: el.lon, type, size, raw: el.tags || {} };
  \<close>
\<close>

definition infer_size :: "(string \<times> string) list option \<Rightarrow> size_class" where
  "infer_size tags =
     (case tags of
        None \<Rightarrow> Small
      | Some ts \<Rightarrow>
          (let allTags = toLowerCase (join '' '' (map snd ts))
           in if list_ex (\<lambda>k. str_includes allTags k) bigKeywords then Large
              else if list_ex (\<lambda>k. str_includes allTags k) medKeywords then Medium
              else Small))"

definition toStore :: "element \<Rightarrow> store" where
  "toStore el =
     \<lparr> id_s = el_id el,
       name = (case el_tags el of
                 None \<Rightarrow> ''Unnamed''
               | Some ts \<Rightarrow> or_else (Some (or_else (map_of ts ''name'')
                                      (or_else (map_of ts ''brand'') []))) ''Unnamed''),
       lat = el_lat el,
       lng = el_lon el,
       type_s = (case el_tags el of
                   None \<Rightarrow> None
                 | Some ts \<Rightarrow> Some (or_else (map_of ts ''shop'')
                                     (or_else (map_of ts ''amenity'') ''shop''))),
       size_s = infer_size (el_tags el),
       raw = (case el_tags el of None \<Rightarrow> [] | Some ts \<Rightarrow> ts) \<rparr>"

section \<open>Breakdown objects\<close>

text \<open>
  \<open>types\<close> and \<open>sizes\<close> start as the object literal \<open>{}\<close> and are filled by
  \<^verbatim>\<open>types[s.type] = (types[s.type] || 0) + 1\<close>.
  The object is the list of its own properties, in insertion order. A read of a key
  that is no own property goes to \<open>Object.prototype\<close>, which \<open>{}\<close> inherits from: for
  the names below it finds a function (or, for \<open>__proto__\<close>, the prototype object).
  Such a value is truthy, and adding \<open>1\<close> to it concatenates strings, so the property
  written back is a string and not a count. A write to \<open>__proto__\<close> runs the inherited
  setter, which ignores a value that is not an object, so no own property appears.
\<close>

datatype propval = Undefined | Count nat | Text | Inherited

type_synonym breakdown = "(string \<times> propval) list"

definition prototype_names :: "string list" where
  "prototype_names =
     [''constructor'', ''__defineGetter__'', ''__defineSetter__'', ''hasOwnProperty'',
      ''__lookupGetter__'', ''__lookupSetter__'', ''isPrototypeOf'',
      ''propertyIsEnumerable'', ''toString'', ''valueOf'', ''__proto__'',
      ''toLocaleString'']"

definition get_prop :: "breakdown \<Rightarrow> string \<Rightarrow> propval" where
  "get_prop obj k =
     (case map_of obj k of
        Some v \<Rightarrow> v
      | None \<Rightarrow> if k \<in> set prototype_names then Inherited else Undefined)"

text \<open>\<open>(v || 0) + 1\<close>\<close>

fun or0_plus1 :: "propval \<Rightarrow> propval" where
  "or0_plus1 Undefined = Count 1"
| "or0_plus1 (Count c) = Count (c + 1)"
| "or0_plus1 Text = Text"
| "or0_plus1 Inherited = Text"

fun set_own :: "breakdown \<Rightarrow> string \<Rightarrow> propval \<Rightarrow> breakdown" where
  "set_own [] k v = [(k, v)]"
| "set_own ((k', v') # rest) k v =
     (if k' = k then (k, v) # rest else (k', v') # set_own rest k v)"

definition put_prop :: "breakdown \<Rightarrow> string \<Rightarrow> propval \<Rightarrow> breakdown" where
  "put_prop obj k v = (if k = ''__proto__'' then obj else set_own obj k v)"

definition increment :: "breakdown \<Rightarrow> string \<Rightarrow> breakdown" where
  "increment obj k = put_prop obj k (or0_plus1 (get_prop obj k))"

text \<open>The property keys: \<open>undefined\<close> is converted to the string \<open>"undefined"\<close>.\<close>

definition type_key :: "string option \<Rightarrow> string" where
  "type_key t = (case t of None \<Rightarrow> ''undefined'' | Some s \<Rightarrow> s)"

fun size_key :: "size_class \<Rightarrow> string" where
  "size_key Small = ''small''"
| "size_key Medium = ''medium''"
| "size_key Large = ''large''"

text \<open>The sum of the counts of a breakdown; a value that is no count adds nothing.\<close>

fun count_of :: "propval \<Rightarrow> nat" where
  "count_of (Count c) = c"
| "count_of _ = 0"

definition count_sum :: "breakdown \<Rightarrow> nat" where
  "count_sum obj = sum_list (map (\<lambda>kv. count_of (snd kv)) obj)"

definition all_counts :: "breakdown \<Rightarrow> bool" where
  "all_counts obj = list_all (\<lambda>kv. case snd kv of Count c \<Rightarrow> True | _ \<Rightarrow> False) obj"

section \<open>Cluster summaries\<close>

text \<open>
  The ways a run ends without a result: \<open>InvalidInput\<close> is the early return of
  \<open>analyzeLocation\<close> on no element, \<open>TypeError\<close> the exception of a property read on
  \<open>undefined\<close>, \<open>InvalidParameter\<close> and \<open>EmptyInput\<close> the two failures of the
  clusterer's contract.
\<close>

datatype error = InvalidInput | InvalidParameter | EmptyInput | TypeError

record summary =
  id_c :: nat
  centroid :: "number \<times> number"
  radiusMeters :: number
  storeCount :: nat
  densityPerKm2 :: number
  densityScore :: number
  types :: breakdown
  sizes :: breakdown
  stores :: "store list"

text \<open>
  The callback of \<open>clusters.map\<close> that builds \<open>clustersSummary\<close>, one local constant
  after the other:
  \<^verbatim>\<open>
  const latSum = clusterStores.reduce((s, it) => s + it.lat, 0);
  const lngSum = clusterStores.reduce((s, it) => s + it.lng, 0);
  const centroid = [latSum / clusterStores.length, lngSum / clusterStores.length];
  const maxDist = Math.max(
    ...clusterStores.map((cs) => haversine(centroid, [cs.lat, cs.lng])));
  const radiusMeters = Math.max(maxDist, 100); // at least 100m
  const areaKm2 = Math.PI * (radiusMeters / 1000) ** 2;
  const densityPerKm2 = clusterStores.length / Math.max(areaKm2, 0.0001);
  \<close>
\<close>

definition latSum :: "store list \<Rightarrow> number" where
  "latSum clusterStores = foldl (\<lambda>s it. num_add s (Num (lat it))) (Num 0) clusterStores"

definition lngSum :: "store list \<Rightarrow> number" where
  "lngSum clusterStores = foldl (\<lambda>s it. num_add s (Num (lng it))) (Num 0) clusterStores"

definition calc_centroid :: "store list \<Rightarrow> number \<times> number" where
  "calc_centroid clusterStores =
     (num_div (latSum clusterStores) (Num (real (length clusterStores))),
      num_div (lngSum clusterStores) (Num (real (length clusterStores))))"

definition distances :: "store list \<Rightarrow> number list" where
  "distances clusterStores =
     map (\<lambda>cs. haversine (calc_centroid clusterStores) (Num (lat cs), Num (lng cs)))
       clusterStores"

definition calc_maxDist :: "store list \<Rightarrow> number" where
  "calc_maxDist clusterStores = Math_max (distances clusterStores)"

definition calc_radiusMeters :: "store list \<Rightarrow> number" where
  "calc_radiusMeters clusterStores = Math_max [calc_maxDist clusterStores, Num 100]"

definition calc_areaKm2 :: "number \<Rightarrow> number" where
  "calc_areaKm2 r = num_mul Math_PI (num_sq (num_div r (Num 1000)))"

definition calc_densityPerKm2 :: "store list \<Rightarrow> number" where
  "calc_densityPerKm2 clusterStores =
     num_div (Num (real (length clusterStores)))
       (Math_max [calc_areaKm2 (calc_radiusMeters clusterStores), Num 0.0001])"

text \<open>\<open>Math.round(Math.min(100, densityPerKm2 * 10))\<close>\<close>

definition calc_densityScore :: "number \<Rightarrow> number" where
  "calc_densityScore d = Math_round (Math_min [Num 100, num_mul d (Num 10)])"

text \<open>
  The radius and the density of \<open>n\<close> stores as functions of the distances that
  \<open>haversine\<close> has returned for them:
  \<^verbatim>\<open>
  const maxDist = Math.max(...distances);
  const radiusMeters = Math.max(maxDist, 100); // at least 100m
  const areaKm2 = Math.PI * (radiusMeters / 1000) ** 2;
  const densityPerKm2 = clusterStores.length / Math.max(areaKm2, 0.0001);
  \<close>
\<close>

definition radiusMeters_of :: "number list \<Rightarrow> number" where
  "radiusMeters_of ds = Math_max [Math_max ds, Num 100]"

definition densityPerKm2_of :: "nat \<Rightarrow> number list \<Rightarrow> number" where
  "densityPerKm2_of n ds =
     num_div (Num (real n)) (Math_max [calc_areaKm2 (radiusMeters_of ds), Num 0.0001])"

text \<open>
  \<^verbatim>\<open>
  clusterStores.forEach((s) => {
    types[s.type] = (types[s.type] || 0) + 1;
    sizes[s.size] = (sizes[s.size] || 0) + 1;
  });
  \<close>
\<close>

definition calc_types :: "store list \<Rightarrow> breakdown" where
  "calc_types clusterStores = foldl (\<lambda>obj s. increment obj (type_key (type_s s))) [] clusterStores"

definition calc_sizes :: "store list \<Rightarrow> breakdown" where
  "calc_sizes clusterStores = foldl (\<lambda>obj s. increment obj (size_key (size_s s))) [] clusterStores"

text \<open>
  \<open>clusterIndexes.map((i) => fetchedStores[i])\<close> yields \<open>undefined\<close> for an index out of
  range, and the first read of \<open>it.lat\<close> on it throws a \<open>TypeError\<close>.
\<close>

definition clusterSummary :: "store list \<Rightarrow> nat list \<Rightarrow> nat \<Rightarrow> error + summary" where
  "clusterSummary fetchedStores clusterIndexes idx =
     (if list_ex (\<lambda>i. length fetchedStores \<le> i) clusterIndexes then Inl TypeError
      else
        (let clusterStores = map (\<lambda>i. fetchedStores ! i) clusterIndexes
         in Inr \<lparr> id_c = idx,
                  centroid = calc_centroid clusterStores,
                  radiusMeters = calc_radiusMeters clusterStores,
                  storeCount = length clusterStores,
                  densityPerKm2 = calc_densityPerKm2 clusterStores,
                  densityScore = calc_densityScore (calc_densityPerKm2 clusterStores),
                  types = calc_types clusterStores,
                  sizes = calc_sizes clusterStores,
                  stores = clusterStores \<rparr>))"

fun summaries :: "store list \<Rightarrow> nat \<Rightarrow> nat list list \<Rightarrow> error + summary list" where
  "summaries fetchedStores idx [] = Inr []"
| "summaries fetchedStores idx (c # cs) =
     (case clusterSummary fetchedStores c idx of
        Inl e \<Rightarrow> Inl e
      | Inr s \<Rightarrow>
          (case summaries fetchedStores (Suc idx) cs of
             Inl e \<Rightarrow> Inl e
           | Inr ss \<Rightarrow> Inr (s # ss)))"

definition clustersSummary :: "store list \<Rightarrow> nat list list \<Rightarrow> error + summary list" where
  "clustersSummary fetchedStores clusters = summaries fetchedStores 0 clusters"

section \<open>The density clusterer\<close>

text \<open>
  Modelled from the spec: the clusterer behind \<open>dbscan.run(points, eps, minPts, haversine)\<close>
  and \<open>dbscan.noise\<close>. It is the class \<open>DBSCAN\<close> of the package
  \<open>density-clustering\<close>, which the application imports and whose code is not part of
  the sources. The model follows the algorithm of the specification (DensityClusterer):
  every point is unvisited at first; the points are scanned in input order; an
  unvisited point whose neighbourhood (the points within \<open>eps\<close> of it, itself
  included) has fewer than \<open>minPts\<close> points becomes a noise candidate; otherwise it
  starts the next cluster, its neighbourhood is the pending set, and every pending
  point that is in no cluster yet joins the cluster and, when it is a core point,
  adds its own neighbourhood to the pending set. A point of a cluster is never
  reassigned; a noise candidate reached by an expansion is promoted. The clusters
  and the noise set are read off the final state of each point.
\<close>

datatype pstate = Unvisited | NoiseCandidate | Assigned nat

fun is_assigned :: "pstate \<Rightarrow> bool" where
  "is_assigned (Assigned c) = True"
| "is_assigned _ = False"

text \<open>A distance is within \<open>eps\<close>; a comparison with \<open>NaN\<close> is false.\<close>

fun within_eps :: "number \<Rightarrow> real \<Rightarrow> bool" where
  "within_eps (Num d) eps = (d \<le> eps)"
| "within_eps NInfinity eps = True"
| "within_eps _ eps = False"

text \<open>
  Modelled from the spec: the neighbourhood of point \<open>p\<close>, "all points (including P)
  within \<open>eps\<close> distance using \<open>distanceFn\<close>"; the region query of the package is
  not among the sources.
\<close>

definition neighborhood :: "('p \<Rightarrow> 'p \<Rightarrow> number) \<Rightarrow> 'p list \<Rightarrow> real \<Rightarrow> nat \<Rightarrow> nat list" where
  "neighborhood distanceFn points eps p =
     filter (\<lambda>q. q = p \<or> within_eps (distanceFn (points ! p) (points ! q)) eps)
       [0..<length points]"

definition unassigned :: "pstate list \<Rightarrow> nat" where
  "unassigned st = length (filter (\<lambda>s. \<not> is_assigned s) st)"

text \<open>
  Modelled from the spec: the expansion of cluster \<open>cid\<close> over the pending points
  (step 3 and step 4 of the algorithm); the expansion of the package is not under the
  sources. \<open>nb\<close> gives the neighbourhood of a point; a core point has at least
  \<open>minPts\<close> neighbours.
\<close>

function expand :: "(nat \<Rightarrow> nat list) \<Rightarrow> int \<Rightarrow> nat \<Rightarrow> pstate list \<Rightarrow> nat list \<Rightarrow> pstate list" where
  "expand nb minPts cid st [] = st"
| "expand nb minPts cid st (q # pending) =
     (if q < length st \<and> \<not> is_assigned (st ! q)
      then expand nb minPts cid (st[q := Assigned cid])
             (if minPts \<le> int (length (nb q))
              then pending @ filter (\<lambda>r. r \<notin> set pending) (nb q)
              else pending)
      else expand nb minPts cid st pending)"
  by pat_completeness auto

text \<open>
  The expansion ends: a pending point either joins the cluster, which leaves fewer
  points outside every cluster, or is dropped from the pending list.
\<close>

lemma unassigned_update:
  assumes "q < length st" "\<not> is_assigned (st ! q)"
  shows "unassigned (st[q := Assigned c]) < unassigned st"
  using assms
proof (induction st arbitrary: q)
  case Nil
  then show ?case by simp
next
  case (Cons s st)
  then show ?case by (cases q) (auto simp: unassigned_def)
qed

termination expand
proof (relation "measures [\<lambda>(nb, m, cid, st, pending). unassigned st,
                           \<lambda>(nb, m, cid, st, pending). length pending]")
  show "wf (measures [\<lambda>(nb, m, cid, st, pending). unassigned st,
                      \<lambda>(nb, m, cid, st, pending). length pending])"
    by simp
qed (auto simp: unassigned_update)

text \<open>
  Modelled from the spec: the scan of the points in input order (steps 2 and 5); the
  state is the state of every point and the number of clusters found so far. The loop
  of the package is not among the sources.
\<close>

fun scan :: "(nat \<Rightarrow> nat list) \<Rightarrow> int \<Rightarrow> nat list \<Rightarrow> pstate list \<times> nat \<Rightarrow> pstate list \<times> nat" where
  "scan nb minPts [] (st, k) = (st, k)"
| "scan nb minPts (p # ps) (st, k) =
     (if p < length st \<and> st ! p = Unvisited
      then (if int (length (nb p)) < minPts
            then scan nb minPts ps (st[p := NoiseCandidate], k)
            else scan nb minPts ps (expand nb minPts k st (nb p), Suc k))
      else scan nb minPts ps (st, k))"

text \<open>
  Modelled from the spec: the contract \<open>cluster(points, eps, minPts, distanceFn)\<close> with
  its error conditions, for the method \<open>run\<close> and the field \<open>noise\<close> of the package's
  \<open>DBSCAN\<close>, which are not among the sources. The members of a cluster and the noise
  points are listed in input order.
\<close>

definition DBSCAN_run ::
  "'p list \<Rightarrow> real \<Rightarrow> int \<Rightarrow> ('p \<Rightarrow> 'p \<Rightarrow> number) \<Rightarrow> error + (nat list list \<times> nat list)" where
  "DBSCAN_run points eps minPts distanceFn =
     (if eps \<le> 0 \<or> minPts < 1 then Inl InvalidParameter
      else if points = [] then Inl EmptyInput
      else
        (let n = length points;
             (st, k) = scan (neighborhood distanceFn points eps) minPts [0..<n]
                         (replicate n Unvisited, 0)
         in Inr (map (\<lambda>c. filter (\<lambda>i. st ! i = Assigned c) [0..<n]) [0..<k],
                 filter (\<lambda>i. st ! i = NoiseCandidate) [0..<n])))"

text \<open>
  Notions for the invariants of the scan. A core point has at least \<open>minPts\<close>
  neighbours. A point is in reach when it is in a cluster or pending. The state is
  closed when the neighbours of every core point of a cluster are in reach, and
  supported when every point in reach that is no core point is a neighbour of a core
  point in reach.
\<close>

definition is_core :: "(nat \<Rightarrow> nat list) \<Rightarrow> int \<Rightarrow> nat \<Rightarrow> bool" where
  "is_core nb m i = (m \<le> int (length (nb i)))"

definition in_reach :: "pstate list \<Rightarrow> nat list \<Rightarrow> nat \<Rightarrow> bool" where
  "in_reach st pending i = (is_assigned (st ! i) \<or> i \<in> set pending)"

definition closed_under :: "(nat \<Rightarrow> nat list) \<Rightarrow> int \<Rightarrow> pstate list \<Rightarrow> nat list \<Rightarrow> bool" where
  "closed_under nb m st pending =
     (\<forall>i < length st. is_assigned (st ! i) \<and> is_core nb m i \<longrightarrow>
        (\<forall>j \<in> set (nb i). in_reach st pending j))"

definition supported :: "(nat \<Rightarrow> nat list) \<Rightarrow> int \<Rightarrow> pstate list \<Rightarrow> nat list \<Rightarrow> bool" where
  "supported nb m st pending =
     (\<forall>i < length st. in_reach st pending i \<and> \<not> is_core nb m i \<longrightarrow>
        (\<exists>j < length st. is_core nb m j \<and> i \<in> set (nb j) \<and> in_reach st pending j))"

definition cluster_members :: "pstate list \<Rightarrow> nat \<Rightarrow> nat set" where
  "cluster_members st c = {i. i < length st \<and> st ! i = Assigned c}"

section \<open>The pipeline\<close>

text \<open>
  \<open>analyzeLocation\<close> from the parsed Overpass answer on; the geocoding and the two
  requests before it, and the rendering after it, are not modelled.
  \<^verbatim>\<open>
  const elements = overpassJson.elements || [];
  if (elements.length === 0) {
    setStatus("No stores found in that area.");
    return;
  }
  ...
  const points = fetchedStores.map((s) => [s.lat, s.lng]);
  const dbscan = new clustering.DBSCAN();
  const eps = 500;
  const minPts = 3;
  const clusters = dbscan.run(points, eps, minPts, haversine);
  const noise = dbscan.noise || [];
  \<close>
  The early return on no element is the error \<open>InvalidInput\<close>: the run ends with the
  status message and neither clusters nor noise.
\<close>

definition eps :: real where
  "eps = 500"

definition minPts :: int where
  "minPts = 3"

definition analyzeLocation :: "element list \<Rightarrow> error + (summary list \<times> nat list)" where
  "analyzeLocation elements =
     (if length elements = 0 then Inl InvalidInput
      else
        (let fetchedStores = map toStore elements;
             points = map (\<lambda>s. (Num (lat s), Num (lng s))) fetchedStores
         in case DBSCAN_run points eps minPts haversine of
              Inl e \<Rightarrow> Inl e
            | Inr (clusters, noise) \<Rightarrow>
                (case clustersSummary fetchedStores clusters of
                   Inl e \<Rightarrow> Inl e
                 | Inr cs \<Rightarrow> Inr (cs, noise))))"

section \<open>Sample inputs\<close>

text \<open>
  Three shops at one place and a fourth on the other side of the globe; and three shops
  at one place of which the first has a type that \<open>Object.prototype\<close> defines.
\<close>

definition sample_elements :: "element list" where
  "sample_elements =
     [\<lparr>el_id = 1, el_lat = 0, el_lon = 0, el_tags = Some [(''shop'', ''bakery'')]\<rparr>,
      \<lparr>el_id = 2, el_lat = 0, el_lon = 0, el_tags = Some [(''shop'', ''Supermarket'')]\<rparr>,
      \<lparr>el_id = 3, el_lat = 0, el_lon = 0, el_tags = None\<rparr>,
      \<lparr>el_id = 4, el_lat = 0, el_lon = 180, el_tags = Some [(''amenity'', ''marketplace'')]\<rparr>]"

definition inherited_key_elements :: "element list" where
  "inherited_key_elements =
     [\<lparr>el_id = 1, el_lat = 0, el_lon = 0, el_tags = Some [(''shop'', ''constructor'')]\<rparr>,
      \<lparr>el_id = 2, el_lat = 0, el_lon = 0, el_tags = Some [(''shop'', ''bakery'')]\<rparr>,
      \<lparr>el_id = 3, el_lat = 0, el_lon = 0, el_tags = Some [(''shop'', ''bakery'')]\<rparr>]"

text \<open>
  Sixteen stores along the antimeridian, 0.004 degrees of latitude apart, with the
  longitude written \<open>180\<close> and \<open>-180\<close> in turn.
\<close>

definition antimeridian_elements :: "element list" where
  "antimeridian_elements =
     map (\<lambda>i. \<lparr>el_id = int i, el_lat = 0.015 - 0.004 * real i,
                 el_lon = (if even i then 180 else - 180), el_tags = None\<rparr>) [0..<16]"

text \<open>
  Five points with a distance given by a table: point \<open>0\<close> is linked to \<open>1\<close>, \<open>2\<close> and
  \<open>3\<close>, and each of these to \<open>4\<close>; linked points are at distance \<open>0\<close>, the others
  at \<open>1000\<close>.
\<close>

definition star_links :: "(int \<times> int) list" where
  "star_links = [(0, 1), (0, 2), (0, 3), (1, 4), (2, 4), (3, 4)]"

definition star_distance :: "int \<Rightarrow> int \<Rightarrow> number" where
  "star_distance a b =
     (if a = b \<or> (a, b) \<in> set star_links \<or> (b, a) \<in> set star_links then Num 0 else Num 1000)"

section \<open>Properties of the distance\<close>

text \<open>
  In exact arithmetic, with finite coordinates, \<open>a\<close> lies between \<open>0\<close> and \<open>1\<close>
  whatever the latitudes, so that neither square root is \<open>NaN\<close> and the distance is
  a finite, non-negative number. The doubles of the code can round \<open>a\<close> above \<open>1\<close>;
  a later section follows that case.
\<close>

lemma haversine_a_point:
  "haversine_a (Num la1, Num lo1) (Num la2, Num lo2) = Num (hav la1 lo1 la2 lo2)"
  by (simp add: haversine_a_def toRad_def num_sub_def Math_PI_def hav_def)

lemma hav_commute: "hav la1 lo1 la2 lo2 = hav la2 lo2 la1 lo1"
proof -
  have s: "(sin (- x))\<^sup>2 = (sin x)\<^sup>2" for x :: real by simp
  have "(la2 - la1) * pi / 180 / 2 = - ((la1 - la2) * pi / 180 / 2)" by (simp add: field_simps)
  moreover have "(lo2 - lo1) * pi / 180 / 2 = - ((lo1 - lo2) * pi / 180 / 2)" by (simp add: field_simps)
  ultimately show ?thesis unfolding hav_def by (simp only: s mult.commute)
qed

lemma half_angle_sum:
  "(sin ((y - x) / 2))\<^sup>2 + cos x * cos y = (cos ((x + y) / 2))\<^sup>2" for x y :: real
proof -
  have d1: "2 * ((y - x) / 2) = y - x" and d2: "2 * ((x + y) / 2) = x + y" by simp_all
  have a: "(sin ((y - x) / 2))\<^sup>2 = (1 - cos (y - x)) / 2"
    using cos_double_sin [of "(y - x) / 2"] unfolding d1 by simp
  have b: "(cos ((x + y) / 2))\<^sup>2 = (1 + cos (x + y)) / 2"
    using cos_double_cos [of "(x + y) / 2"] unfolding d2 by simp
  show ?thesis unfolding a b by (simp add: cos_add cos_diff field_simps)
qed

lemma hav_range: "0 \<le> hav la1 lo1 la2 lo2 \<and> hav la1 lo1 la2 lo2 \<le> 1"
proof -
  define x where "x = la1 * pi / 180"
  define y where "y = la2 * pi / 180"
  define t where "t = (sin ((lo2 - lo1) * pi / 180 / 2))\<^sup>2"
  define A where "A = (sin ((y - x) / 2))\<^sup>2"
  define B where "B = (cos ((x + y) / 2))\<^sup>2"
  have yx: "(la2 - la1) * pi / 180 / 2 = (y - x) / 2" by (simp add: x_def y_def field_simps)
  have s1: "(sin z)\<^sup>2 \<le> 1" for z :: real
    using sin_cos_squared_add [of z] zero_le_power2 [of "cos z"] by linarith
  have c1: "(cos z)\<^sup>2 \<le> 1" for z :: real
    using sin_cos_squared_add [of z] zero_le_power2 [of "sin z"] by linarith
  have t: "0 \<le> t" "t \<le> 1" unfolding t_def by (simp_all add: s1)
  have A: "0 \<le> A" "A \<le> 1" unfolding A_def by (simp_all add: s1)
  have B: "0 \<le> B" "B \<le> 1" unfolding B_def by (simp_all add: c1)
  have cc: "cos x * cos y = B - A" using half_angle_sum [of y x] by (simp add: A_def B_def)
  have "hav la1 lo1 la2 lo2 = A + cos x * cos y * t"
    unfolding hav_def yx A_def x_def y_def t_def ..
  then have h: "hav la1 lo1 la2 lo2 = (1 - t) * A + t * B"
    unfolding cc by (simp add: algebra_simps)
  have "0 \<le> (1 - t) * A + t * B" using t A B by simp
  moreover have "(1 - t) * A + t * B \<le> (1 - t) * 1 + t * 1"
    using t A B by (intro add_mono mult_left_mono) simp_all
  ultimately show ?thesis using h by simp
qed

lemma haversine_finite:
  "haversine (Num la1, Num lo1) (Num la2, Num lo2) = Num (haversine_real la1 lo1 la2 lo2)"
proof -
  have "\<not> hav la1 lo1 la2 lo2 < 0" "\<not> 1 - hav la1 lo1 la2 lo2 < 0"
    using hav_range [of la1 lo1 la2 lo2] by simp_all
  then show ?thesis
    by (simp add: haversine_def haversine_a_point num_sub_def haversine_real_def)
qed

lemma atan2_nonneg: "0 \<le> y \<Longrightarrow> 0 \<le> x \<Longrightarrow> 0 \<le> atan2 y x"
  by (simp add: atan2_def)

lemma haversine_real_nonneg: "0 \<le> haversine_real la1 lo1 la2 lo2"
proof -
  have "0 \<le> sqrt (hav la1 lo1 la2 lo2)" "0 \<le> sqrt (1 - hav la1 lo1 la2 lo2)"
    using hav_range [of la1 lo1 la2 lo2] by simp_all
  then have "0 \<le> atan2 (sqrt (hav la1 lo1 la2 lo2)) (sqrt (1 - hav la1 lo1 la2 lo2))"
    by (rule atan2_nonneg)
  then show ?thesis by (simp add: haversine_real_def)
qed

lemma haversine_real_commute:
  "haversine_real la1 lo1 la2 lo2 = haversine_real la2 lo2 la1 lo1"
  by (simp add: haversine_real_def hav_commute [of la1 lo1 la2 lo2])

lemma haversine_real_self: "haversine_real la lo la lo = 0"
  by (simp add: haversine_real_def hav_def atan2_def)

lemma haversine_commute_general: "haversine (a1, a2) (b1, b2) = haversine (b1, b2) (a1, a2)"
  apply (cases a1; cases a2; cases b1; cases b2)
  apply (simp_all add: haversine_finite haversine_real_commute)
  apply (simp_all add: haversine_def haversine_a_def toRad_def num_sub_def Math_PI_def inf_times_def)
  done

text \<open>
  C9: the distance is symmetric, \<open>haversine a b = haversine b a\<close> for every pair of
  points (also where a coordinate is \<open>NaN\<close> or infinite), and the distance from a
  point of finite coordinates to itself is \<open>0\<close>.
\<close>

theorem haversine_symmetric_and_zero:
  "haversine a b = haversine b a \<and> haversine (point la lo) (point la lo) = Num 0"
proof
  show "haversine a b = haversine b a"
    using haversine_commute_general [of "fst a" "snd a" "fst b" "snd b"] by simp
  show "haversine (point la lo) (point la lo) = Num 0"
    by (simp add: point_def haversine_finite haversine_real_self)
qed

section \<open>Properties of the cluster summaries\<close>

text \<open>
  The summary of no store, and the density of stores whose radius is a number of at
  least \<open>100\<close>: then the area is at least \<open>pi * 0.01\<close>, above the guard \<open>0.0001\<close>.
\<close>

lemma calc_centroid_empty: "calc_centroid [] = (NaN, NaN)"
  by (simp add: calc_centroid_def latSum_def lngSum_def inf_times_def)

lemma calc_radiusMeters_empty: "calc_radiusMeters [] = Num 100"
  by (simp add: calc_radiusMeters_def calc_maxDist_def distances_def Math_max_def)

lemma calc_areaKm2_finite: "calc_areaKm2 (Num r) = Num (pi * (r / 1000)\<^sup>2)"
  by (simp add: calc_areaKm2_def Math_PI_def)

lemma area_floor:
  assumes "100 \<le> (r::real)"
  shows "pi * 0.01 \<le> pi * (r / 1000)\<^sup>2"
proof -
  have "(1 / 10)\<^sup>2 \<le> (r / 1000)\<^sup>2" using assms by (intro power_mono) simp_all
  then have "0.01 \<le> (r / 1000)\<^sup>2" by (simp add: power2_eq_square)
  then show ?thesis by (intro mult_left_mono) simp_all
qed

lemma guard_below_floor: "(0.0001::real) < pi * 0.01"
  using pi_ge_two by simp

lemma calc_densityPerKm2_finite:
  assumes "calc_radiusMeters cs = Num r" "100 \<le> r"
  shows "calc_densityPerKm2 cs = Num (real (length cs) / (pi * (r / 1000)\<^sup>2))"
proof -
  define a where "a = pi * (r / 1000)\<^sup>2"
  have a: "0.0001 < a" unfolding a_def
    using area_floor [OF assms(2)] guard_below_floor by (rule less_le_trans [rotated])
  then have "Math_max [Num a, Num 0.0001] = Num a"
    by (simp add: Math_max_def max_def)
  moreover have "a \<noteq> 0" using a by simp
  ultimately show ?thesis
    by (simp add: calc_densityPerKm2_def assms(1) calc_areaKm2_finite a_def [symmetric])
qed

lemma calc_densityScore_bounds:
  assumes "0 \<le> d"
  shows "\<exists>k::int. calc_densityScore (Num d) = Num (of_int k) \<and> 0 \<le> k \<and> k \<le> 100"
proof -
  define m where "m = min 100 (d * 10)"
  have m: "0 \<le> m" "m \<le> 100" using assms by (simp_all add: m_def)
  have s: "calc_densityScore (Num d) = Num (of_int \<lfloor>m + 1 / 2\<rfloor>)"
    by (simp add: calc_densityScore_def Math_min_def m_def)
  have "0 \<le> \<lfloor>m + 1 / 2\<rfloor>" using m by simp
  moreover have "\<lfloor>m + 1 / 2\<rfloor> \<le> 100" using m by (simp add: floor_le_iff)
  ultimately show ?thesis using s by blast
qed

lemma clusterSummary_Inr:
  assumes "clusterSummary fetchedStores clusterIndexes idx = Inr s"
  shows "s = \<lparr> id_c = idx,
              centroid = calc_centroid (map (\<lambda>i. fetchedStores ! i) clusterIndexes),
              radiusMeters = calc_radiusMeters (map (\<lambda>i. fetchedStores ! i) clusterIndexes),
              storeCount = length clusterIndexes,
              densityPerKm2 = calc_densityPerKm2 (map (\<lambda>i. fetchedStores ! i) clusterIndexes),
              densityScore =
                calc_densityScore (calc_densityPerKm2 (map (\<lambda>i. fetchedStores ! i) clusterIndexes)),
              types = calc_types (map (\<lambda>i. fetchedStores ! i) clusterIndexes),
              sizes = calc_sizes (map (\<lambda>i. fetchedStores ! i) clusterIndexes),
              stores = map (\<lambda>i. fetchedStores ! i) clusterIndexes \<rparr>"
  using assms by (auto simp add: clusterSummary_def Let_def split: if_splits)

lemma clusterSummary_empty:
  "clusterSummary fetchedStores [] idx =
     Inr \<lparr> id_c = idx, centroid = (NaN, NaN), radiusMeters = Num 100, storeCount = 0,
           densityPerKm2 = Num 0, densityScore = Num 0, types = [], sizes = [], stores = [] \<rparr>"
proof -
  have d: "calc_densityPerKm2 [] = Num 0"
    using calc_densityPerKm2_finite [of "[]" 100] by (simp add: calc_radiusMeters_empty)
  have "calc_densityScore (Num 0) = Num 0"
    by (simp add: calc_densityScore_def Math_min_def)
  then show ?thesis
    by (simp add: clusterSummary_def Let_def calc_centroid_empty calc_radiusMeters_empty d
        calc_types_def calc_sizes_def)
qed

text \<open>The summary of the first three sample elements, computed.\<close>

lemma sample_stores:
  "map toStore sample_elements =
     [\<lparr>id_s = 1, name = ''Unnamed'', lat = 0, lng = 0, type_s = Some ''bakery'',
        size_s = Medium, raw = [(''shop'', ''bakery'')]\<rparr>,
      \<lparr>id_s = 2, name = ''Unnamed'', lat = 0, lng = 0, type_s = Some ''Supermarket'',
        size_s = Large, raw = [(''shop'', ''Supermarket'')]\<rparr>,
      \<lparr>id_s = 3, name = ''Unnamed'', lat = 0, lng = 0, type_s = None,
        size_s = Small, raw = []\<rparr>,
      \<lparr>id_s = 4, name = ''Unnamed'', lat = 0, lng = 180, type_s = Some ''marketplace'',
        size_s = Small, raw = [(''amenity'', ''marketplace'')]\<rparr>]"
  by (simp add: sample_elements_def toStore_def infer_size_def toLowerCase_def lower_char_def
      bigKeywords_def medKeywords_def or_else_def)

lemma sample_summary:
  "clusterSummary (map toStore sample_elements) [0, 1, 2] 0 =
     Inr \<lparr> id_c = 0, centroid = (Num 0, Num 0), radiusMeters = Num 100, storeCount = 3,
           densityPerKm2 = Num (3 / (pi * 0.01)), densityScore = Num 100,
           types = [(''bakery'', Count 1), (''Supermarket'', Count 1), (''undefined'', Count 1)],
           sizes = [(''medium'', Count 1), (''large'', Count 1), (''small'', Count 1)],
           stores = take 3 (map toStore sample_elements) \<rparr>"
proof -
  let ?cs = "take 3 (map toStore sample_elements)"
  have cs: "map (\<lambda>i. map toStore sample_elements ! i) [0, 1, 2] = ?cs"
    by (simp add: sample_stores)
  have c: "calc_centroid ?cs = (Num 0, Num 0)"
    by (simp add: sample_stores calc_centroid_def latSum_def lngSum_def)
  have r: "calc_radiusMeters ?cs = Num 100"
    unfolding calc_radiusMeters_def calc_maxDist_def distances_def c
    by (simp add: sample_stores haversine_finite haversine_real_self Math_max_def)
  have d: "calc_densityPerKm2 ?cs = Num (3 / (pi * 0.01))"
    using calc_densityPerKm2_finite [OF r] by (simp add: sample_elements_def power2_eq_square)
  have "pi * 0.01 * 100 \<le> 30" using pi_less_4 by simp
  then have "(100::real) \<le> 3 / (pi * 0.01) * 10"
    by (simp add: field_simps)
  then have m: "min 100 (3 / (pi * 0.01) * 10) = (100::real)" by (simp only: min_def if_True)
  have sc: "calc_densityScore (Num (3 / (pi * 0.01))) = Num 100"
    unfolding calc_densityScore_def Math_min_def by (simp only: foldl.simps min2.simps num_mul.simps m Math_round.simps) simp
  have t: "calc_types ?cs = [(''bakery'', Count 1), (''Supermarket'', Count 1), (''undefined'', Count 1)]"
    by (simp add: sample_stores calc_types_def increment_def get_prop_def put_prop_def
        type_key_def prototype_names_def)
  have z: "calc_sizes ?cs = [(''medium'', Count 1), (''large'', Count 1), (''small'', Count 1)]"
    by (simp add: sample_stores calc_sizes_def increment_def get_prop_def put_prop_def
        prototype_names_def)
  have "\<not> list_ex (\<lambda>i. length (map toStore sample_elements) \<le> i) [0, 1, 2]"
    by (simp add: sample_elements_def)
  then show ?thesis
    unfolding clusterSummary_def Let_def cs c r d sc t z by simp
qed

text \<open>
  C7 as stated fails: the summary of no member is not refused. The centroid is
  \<open>0 / 0\<close> twice, \<open>Math.max()\<close> of no distance is \<open>-Infinity\<close> and the floor makes
  the radius \<open>100\<close>.
\<close>

theorem empty_cluster_summary_counterexample:
  "clusterSummary [] [] 0 =
     Inr \<lparr> id_c = 0, centroid = (NaN, NaN), radiusMeters = Num 100, storeCount = 0,
           densityPerKm2 = Num 0, densityScore = Num 0, types = [], sizes = [], stores = [] \<rparr> \<and>
   clusterSummary [] [] 0 \<noteq> Inl InvalidInput"
  by (simp add: clusterSummary_empty)

text \<open>
  C7, amended: summarizing a cluster of no member never fails; it returns the summary
  with \<open>storeCount\<close> \<open>0\<close>, the centroid \<open>(NaN, NaN)\<close>, \<open>radiusMeters\<close> \<open>100\<close>,
  \<open>densityPerKm2\<close> \<open>0\<close>, \<open>densityScore\<close> \<open>0\<close> and empty breakdowns.
\<close>

theorem empty_cluster_summary:
  "clusterSummary fetchedStores [] idx =
     Inr \<lparr> id_c = idx, centroid = (NaN, NaN), radiusMeters = Num 100, storeCount = 0,
           densityPerKm2 = Num 0, densityScore = Num 0, types = [], sizes = [], stores = [] \<rparr>"
  by (rule clusterSummary_empty)

section \<open>The rounded \<open>a\<close> of the distance\<close>

text \<open>
  In the code \<open>a\<close> is a double. For a centroid antipodal to a member the exact \<open>a\<close>
  is \<open>1\<close>, and the rounded sum can be the next double above it, \<open>1 + 2^-52\<close>. It is
  for the sixteen stores of \<open>antimeridian_elements\<close>, at latitude \<open>0.015 - 0.004 i\<close>
  and longitude \<open>180\<close> for even \<open>i\<close>, \<open>-180\<close> for odd \<open>i\<close>: neighbours are 445 metres
  apart, the stores are one cluster, the mean of the degrees is \<open>(-0.015, 0)\<close> and
  the first store is antipodal to it. Then \<open>Math.sqrt(1 - a)\<close> is \<open>NaN\<close>, where the
  exact arithmetic of \<open>haversine_finite\<close> has a number. The lemmas of this section
  compute nothing that is rounded: they are about the special values, and follow the
  \<open>NaN\<close> from \<open>a\<close> through the radius, the area, the guard of the density and the
  score. First the summary in terms of the distances, and the formula of the score.
\<close>

lemma haversine_via_a: "haversine p1 p2 = haversine_from_a (haversine_a p1 p2)"
  by (simp add: haversine_def haversine_from_a_def Let_def)

lemma distances_via_a:
  "distances cs =
     map (\<lambda>c. haversine_from_a (haversine_a (calc_centroid cs) (Num (lat c), Num (lng c)))) cs"
  by (simp add: distances_def haversine_via_a)

lemma summary_via_distances:
  assumes "clusterSummary fetchedStores clusterIndexes idx = Inr s"
  shows "radiusMeters s = radiusMeters_of (distances (stores s)) \<and>
         densityPerKm2 s = densityPerKm2_of (storeCount s) (distances (stores s)) \<and>
         densityScore s = calc_densityScore (densityPerKm2 s)"
proof -
  let ?cs = "map (\<lambda>i. fetchedStores ! i) clusterIndexes"
  note s = clusterSummary_Inr [OF assms]
  have 1: "stores s = ?cs" by (subst s) simp
  have 2: "storeCount s = length ?cs" by (subst s) simp
  have 3: "radiusMeters s = calc_radiusMeters ?cs" by (subst s) simp
  have 4: "densityPerKm2 s = calc_densityPerKm2 ?cs" by (subst s) simp
  have 5: "densityScore s = calc_densityScore (calc_densityPerKm2 ?cs)" by (subst s) simp
  show ?thesis
    unfolding 1 2 3 4 5
    by (simp add: calc_radiusMeters_def calc_maxDist_def radiusMeters_of_def
        calc_densityPerKm2_def densityPerKm2_of_def)
qed

lemma densityScore_formula:
  assumes "clusterSummary fetchedStores clusterIndexes idx = Inr s"
  shows "densityScore s = Math_round (Math_min [Num 100, num_mul (densityPerKm2 s) (Num 10)])"
  using summary_via_distances [OF assms] by (simp add: calc_densityScore_def)

text \<open>
  The sixteen stores of \<open>antimeridian_elements\<close>: in exact arithmetic their centroid
  is \<open>(-0.015, 0)\<close> and the \<open>a\<close> of the first store is exactly \<open>1\<close>, the largest value
  for which the distance is a number.
\<close>

lemma hav_antipodal: "hav (- la) 0 la 180 = 1"
proof -
  have 1: "(la - - la) * pi / 180 / 2 = la * pi / 180" by simp
  have 2: "(180 - 0) * pi / 180 / 2 = pi / 2" by simp
  have 3: "cos (- la * pi / 180) = cos (la * pi / 180)"
    using cos_minus [of "la * pi / 180"] by simp
  show ?thesis
    unfolding hav_def 1 2 3 by (simp add: power2_eq_square [symmetric])
qed

lemma upt16: "[0..<16] = [0, 1, 2, 3, 4, 5, 6, 7, 8, 9, 10, 11, 12, 13, 14, 15::nat]"
  by code_simp

lemma antimeridian_centroid:
  "calc_centroid (map toStore antimeridian_elements) = (Num (- 0.015), Num 0)"
  by (simp add: antimeridian_elements_def upt16 toStore_def calc_centroid_def latSum_def
      lngSum_def)

lemma antimeridian_first:
  "(lat (map toStore antimeridian_elements ! 0), lng (map toStore antimeridian_elements ! 0))
   = (0.015, 180)"
  by (simp add: antimeridian_elements_def upt16 toStore_def)

lemma antimeridian_exact_a:
  "haversine_a (calc_centroid (map toStore antimeridian_elements)) (Num 0.015, Num 180) = Num 1"
  unfolding antimeridian_centroid haversine_a_point using hav_antipodal [of "0.015"] by simp

text \<open>The distance is a number for \<open>a\<close> from \<open>0\<close> to \<open>1\<close>, and \<open>NaN\<close> outside.\<close>

lemma haversine_from_a_number:
  assumes "0 \<le> a" "a \<le> 1"
  shows "haversine_from_a (Num a) = Num (6371000 * 2 * atan2 (sqrt a) (sqrt (1 - a)))"
  using assms by (simp add: haversine_from_a_def num_sub_def)

lemma haversine_from_a_above_one:
  assumes "1 < a"
  shows "haversine_from_a (Num a) = NaN"
  using assms by (simp add: haversine_from_a_def num_sub_def)

lemma haversine_from_a_below_zero:
  assumes "a < 0"
  shows "haversine_from_a (Num a) = NaN"
  using assms by (simp add: haversine_from_a_def num_sub_def)

text \<open>\<open>Math.max\<close> of arguments with a \<open>NaN\<close> is \<open>NaN\<close>; so are the radius, the area, the
  density and the score.\<close>

lemma max2_NaN_right: "max2 m NaN = NaN"
  by (cases m) simp_all

lemma foldl_max2_NaN: "foldl max2 NaN ds = NaN"
  by (induction ds) simp_all

lemma foldl_max2_has_NaN: "NaN \<in> set ds \<Longrightarrow> foldl max2 m ds = NaN"
proof (induction ds arbitrary: m)
  case Nil
  then show ?case by simp
next
  case (Cons d ds)
  show ?case
  proof (cases "d = NaN")
    case True
    then show ?thesis by (simp add: max2_NaN_right foldl_max2_NaN)
  next
    case False
    with Cons.prems have "NaN \<in> set ds" by auto
    then show ?thesis by (simp add: Cons.IH)
  qed
qed

lemma Math_max_NaN: "NaN \<in> set ds \<Longrightarrow> Math_max ds = NaN"
  by (simp add: Math_max_def foldl_max2_has_NaN)

lemma radiusMeters_of_NaN: "NaN \<in> set ds \<Longrightarrow> radiusMeters_of ds = NaN"
  by (simp add: radiusMeters_of_def Math_max_NaN)

lemma calc_areaKm2_NaN: "calc_areaKm2 NaN = NaN"
  by (simp add: calc_areaKm2_def Math_PI_def)

lemma densityPerKm2_of_NaN: "NaN \<in> set ds \<Longrightarrow> densityPerKm2_of n ds = NaN"
  by (simp add: densityPerKm2_of_def radiusMeters_of_NaN calc_areaKm2_NaN Math_max_NaN)

lemma calc_densityScore_NaN: "calc_densityScore NaN = NaN"
  by (simp add: calc_densityScore_def Math_min_def)

text \<open>
  When every distance is a number the radius is their maximum floored at \<open>100\<close>, the
  density is a number that is not negative and the score is an integer from \<open>0\<close> to
  \<open>100\<close>.
\<close>

lemma foldl_max2_Num: "foldl max2 (Num d) (map Num ds) = Num (fold max ds d)"
  by (induction ds arbitrary: d) (simp_all add: max.commute)

lemma Math_max_numbers:
  assumes "ds \<noteq> []"
  shows "Math_max (map Num ds) = Num (Max (set ds))"
proof (cases ds)
  case Nil
  with assms show ?thesis by simp
next
  case (Cons d ds')
  have "Math_max (map Num (d # ds')) = Num (fold max ds' d)"
    by (simp add: Math_max_def foldl_max2_Num)
  also have "fold max ds' d = Max (set (d # ds'))"
    by (rule Max.set_eq_fold [symmetric])
  finally show ?thesis using Cons by simp
qed

lemma radiusMeters_of_numbers:
  "\<exists>r. radiusMeters_of (map Num ds) = Num r \<and> 100 \<le> r \<and>
       (ds \<noteq> [] \<longrightarrow> r = max (Max (set ds)) 100)"
proof (cases "ds = []")
  case True
  then show ?thesis by (simp add: radiusMeters_of_def Math_max_def)
next
  case False
  then show ?thesis by (simp add: radiusMeters_of_def Math_max_numbers) (simp add: Math_max_def)
qed

lemma densityPerKm2_of_numbers:
  assumes "radiusMeters_of ds = Num r" "100 \<le> r"
  shows "densityPerKm2_of n ds = Num (real n / (pi * (r / 1000)\<^sup>2)) \<and>
         0 \<le> real n / (pi * (r / 1000)\<^sup>2)"
proof -
  define a where "a = pi * (r / 1000)\<^sup>2"
  have a: "0.0001 < a" unfolding a_def
    using area_floor [OF assms(2)] guard_below_floor by (rule less_le_trans [rotated])
  then have "Math_max [Num a, Num 0.0001] = Num a"
    by (simp add: Math_max_def max_def)
  moreover have "a \<noteq> 0" "0 \<le> real n / a" using a by simp_all
  ultimately show ?thesis
    by (simp add: densityPerKm2_of_def assms(1) calc_areaKm2_finite a_def [symmetric])
qed

lemma summary_bounds_of_numbers:
  "\<exists>r d. radiusMeters_of (map Num ds) = Num r \<and> 100 \<le> r \<and>
         densityPerKm2_of n (map Num ds) = Num d \<and> 0 \<le> d \<and>
         (\<exists>k::int. calc_densityScore (Num d) = Num (of_int k) \<and> 0 \<le> k \<and> k \<le> 100)"
proof -
  obtain r where r: "radiusMeters_of (map Num ds) = Num r" "100 \<le> r"
    using radiusMeters_of_numbers by blast
  note d = densityPerKm2_of_numbers [OF r, of n]
  from calc_densityScore_bounds [OF conjunct2 [OF d]] r d show ?thesis by blast
qed

text \<open>
  C3 asks that \<open>radiusMeters\<close> is the maximum of the distances floored at \<open>100\<close>, hence
  at least \<open>100\<close>. When the \<open>a\<close> of a member exceeds \<open>1\<close>, the distance of that member
  is \<open>NaN\<close> and so is \<open>radiusMeters\<close>: \<open>Math.max(NaN, 100)\<close> is \<open>NaN\<close>, and the floor that
  the comment of the code announces, at least 100m, is lost.
\<close>

theorem radiusMeters_NaN_when_a_exceeds_one:
  assumes "1 < a" and "haversine_from_a (Num a) \<in> set ds"
  shows "haversine_from_a (Num a) = NaN \<and> radiusMeters_of ds = NaN"
proof -
  have h: "haversine_from_a (Num a) = NaN" using assms(1) by (rule haversine_from_a_above_one)
  with assms(2) have "NaN \<in> set ds" by simp
  with h show ?thesis by (simp add: radiusMeters_of_NaN)
qed

theorem radiusMeters_NaN_when_a_exceeds_one_witness:
  "(1::real) < 1 + 1 / 2 ^ 52 \<and>
   radiusMeters_of [haversine_from_a (Num (1 + 1 / 2 ^ 52)), Num 20014642, Num 20014197] = NaN"
proof -
  have a: "(1::real) < 1 + 1 / 2 ^ 52" by simp
  have m: "haversine_from_a (Num (1 + 1 / 2 ^ 52))
           \<in> set [haversine_from_a (Num (1 + 1 / 2 ^ 52)), Num 20014642, Num 20014197]"
    by simp
  from radiusMeters_NaN_when_a_exceeds_one [OF a m] a show ?thesis by blast
qed

text \<open>
  C10 asks that the area is at least \<open>pi * 0.01\<close> and that \<open>densityPerKm2\<close> is a
  division by a positive number. When the \<open>a\<close> of a member exceeds \<open>1\<close>, the area is
  \<open>NaN\<close>, \<open>Math.max(areaKm2, 0.0001)\<close> is \<open>NaN\<close>, not the area of a floored radius and
  not \<open>0.0001\<close> either, and \<open>densityPerKm2\<close> is a division by \<open>NaN\<close>.
\<close>

theorem density_NaN_when_a_exceeds_one:
  assumes "1 < a" and "haversine_from_a (Num a) \<in> set ds"
  shows "calc_areaKm2 (radiusMeters_of ds) = NaN \<and>
         Math_max [calc_areaKm2 (radiusMeters_of ds), Num 0.0001] = NaN \<and>
         densityPerKm2_of n ds = NaN"
proof -
  have "haversine_from_a (Num a) = NaN" using assms(1) by (rule haversine_from_a_above_one)
  with assms(2) have n: "NaN \<in> set ds" by simp
  then have "calc_areaKm2 (radiusMeters_of ds) = NaN"
    by (simp add: radiusMeters_of_NaN calc_areaKm2_NaN)
  moreover from this have "Math_max [calc_areaKm2 (radiusMeters_of ds), Num 0.0001] = NaN"
    by (simp add: Math_max_NaN)
  ultimately show ?thesis using n by (simp add: densityPerKm2_of_NaN)
qed

theorem density_NaN_when_a_exceeds_one_witness:
  "(1::real) < 1 + 1 / 2 ^ 52 \<and>
   densityPerKm2_of 3 [haversine_from_a (Num (1 + 1 / 2 ^ 52)), Num 20014642, Num 20014197] = NaN"
proof -
  have a: "(1::real) < 1 + 1 / 2 ^ 52" by simp
  have m: "haversine_from_a (Num (1 + 1 / 2 ^ 52))
           \<in> set [haversine_from_a (Num (1 + 1 / 2 ^ 52)), Num 20014642, Num 20014197]"
    by simp
  from density_NaN_when_a_exceeds_one [OF a m, of 3] a show ?thesis by blast
qed

text \<open>
  C2 asks that the score is an integer from \<open>0\<close> to \<open>100\<close>. When the \<open>a\<close> of a member
  exceeds \<open>1\<close>, the score is \<open>NaN\<close>: the cap \<open>Math.min(100, NaN)\<close> is \<open>NaN\<close>.
\<close>

theorem densityScore_NaN_when_a_exceeds_one:
  assumes "1 < a" and "haversine_from_a (Num a) \<in> set ds"
  shows "calc_densityScore (densityPerKm2_of n ds) = NaN"
proof -
  have "haversine_from_a (Num a) = NaN" using assms(1) by (rule haversine_from_a_above_one)
  with assms(2) have "NaN \<in> set ds" by simp
  then show ?thesis by (simp add: densityPerKm2_of_NaN calc_densityScore_NaN)
qed

theorem densityScore_NaN_when_a_exceeds_one_witness:
  "(1::real) < 1 + 1 / 2 ^ 52 \<and>
   calc_densityScore
     (densityPerKm2_of 3 [haversine_from_a (Num (1 + 1 / 2 ^ 52)), Num 20014642, Num 20014197])
   = NaN"
proof -
  have a: "(1::real) < 1 + 1 / 2 ^ 52" by simp
  have m: "haversine_from_a (Num (1 + 1 / 2 ^ 52))
           \<in> set [haversine_from_a (Num (1 + 1 / 2 ^ 52)), Num 20014642, Num 20014197]"
    by simp
  from densityScore_NaN_when_a_exceeds_one [OF a m, of 3] a show ?thesis by blast
qed

section \<open>Properties of the breakdowns\<close>

text \<open>
  A key that \<open>Object.prototype\<close> does not define is counted: each increment adds one
  to the sum of the counts. The three size keys are such keys, so the size breakdown
  always sums to the number of stores; the type breakdown does when no store's type
  is one of the inherited names.
\<close>

lemma count_sum_Cons: "count_sum (kv # obj) = count_of (snd kv) + count_sum obj"
  by (simp add: count_sum_def)

lemma count_sum_set_own_None:
  "map_of obj k = None \<Longrightarrow> count_sum (set_own obj k v) = count_sum obj + count_of v"
  by (induction obj) (auto simp: count_sum_Cons count_sum_def)

lemma count_sum_set_own_Some:
  "map_of obj k = Some (Count c) \<Longrightarrow>
   count_sum (set_own obj k (Count (Suc c))) = Suc (count_sum obj)"
  by (induction obj) (auto simp: count_sum_Cons)

lemma all_counts_set_own:
  "all_counts obj \<Longrightarrow> all_counts (set_own obj k (Count c))"
  by (induction obj) (auto simp: all_counts_def)

lemma all_counts_map_of:
  "all_counts obj \<Longrightarrow> map_of obj k = Some v \<Longrightarrow> \<exists>c. v = Count c"
  by (induction obj) (auto simp: all_counts_def split: if_splits propval.splits)

lemma increment_plain_key:
  assumes "k \<notin> set prototype_names" "all_counts obj"
  shows "count_sum (increment obj k) = Suc (count_sum obj) \<and> all_counts (increment obj k)"
proof -
  have p: "k \<noteq> ''__proto__''" using assms(1) by (auto simp: prototype_names_def)
  show ?thesis
  proof (cases "map_of obj k")
    case None
    then show ?thesis using assms p
      by (simp add: increment_def get_prop_def put_prop_def count_sum_set_own_None
          all_counts_set_own)
  next
    case (Some v)
    then obtain c where "v = Count c" using all_counts_map_of [OF assms(2)] by blast
    with Some show ?thesis using assms p
      by (simp add: increment_def get_prop_def put_prop_def count_sum_set_own_Some
          all_counts_set_own)
  qed
qed

lemma foldl_increment_plain_keys:
  assumes "\<forall>s \<in> set xs. key s \<notin> set prototype_names" "all_counts obj"
  shows "count_sum (foldl (\<lambda>obj s. increment obj (key s)) obj xs) = count_sum obj + length xs \<and>
         all_counts (foldl (\<lambda>obj s. increment obj (key s)) obj xs)"
  using assms
proof (induction xs arbitrary: obj)
  case Nil
  then show ?case by simp
next
  case (Cons x xs)
  from Cons.prems have k: "key x \<notin> set prototype_names" by simp
  note i = increment_plain_key [OF k Cons.prems(2)]
  from Cons.prems have "\<forall>s \<in> set xs. key s \<notin> set prototype_names" by simp
  from Cons.IH [OF this conjunct2 [OF i]] i show ?case by simp
qed

lemma size_key_plain: "size_key z \<notin> set prototype_names"
  by (cases z) (simp_all add: prototype_names_def)

lemma calc_sizes_sum: "count_sum (calc_sizes cs) = length cs \<and> all_counts (calc_sizes cs)"
  using foldl_increment_plain_keys [of cs "\<lambda>s. size_key (size_s s)" "[]"]
  by (simp add: calc_sizes_def size_key_plain all_counts_def count_sum_def)

lemma calc_types_sum:
  assumes "\<forall>s \<in> set cs. type_key (type_s s) \<notin> set prototype_names"
  shows "count_sum (calc_types cs) = length cs \<and> all_counts (calc_types cs)"
  using foldl_increment_plain_keys [of cs "\<lambda>s. type_key (type_s s)" "[]"] assms
  by (simp add: calc_types_def all_counts_def count_sum_def)

lemma breakdown_sums_plain_types:
  assumes "clusterSummary fetchedStores clusterIndexes idx = Inr s"
    and "\<forall>i \<in> set clusterIndexes. type_key (type_s (fetchedStores ! i)) \<notin> set prototype_names"
  shows "count_sum (types s) = storeCount s \<and> storeCount s = count_sum (sizes s) \<and>
         all_counts (types s) \<and> all_counts (sizes s)"
proof -
  let ?cs = "map (\<lambda>i. fetchedStores ! i) clusterIndexes"
  note s = clusterSummary_Inr [OF assms(1)]
  have "\<forall>s \<in> set ?cs. type_key (type_s s) \<notin> set prototype_names" using assms(2) by simp
  note t = calc_types_sum [OF this]
  have 1: "types s = calc_types ?cs" by (subst s) simp
  have 2: "sizes s = calc_sizes ?cs" by (subst s) simp
  have 3: "storeCount s = length ?cs" by (subst s) simp
  show ?thesis using t calc_sizes_sum [of ?cs] by (simp add: 1 2 3)
qed

lemma sizes_sum_always:
  assumes "clusterSummary fetchedStores clusterIndexes idx = Inr s"
  shows "count_sum (sizes s) = storeCount s"
proof -
  let ?cs = "map (\<lambda>i. fetchedStores ! i) clusterIndexes"
  note s = clusterSummary_Inr [OF assms(1)]
  have 2: "sizes s = calc_sizes ?cs" by (subst s) simp
  have 3: "storeCount s = length ?cs" by (subst s) simp
  show ?thesis using calc_sizes_sum [of ?cs] by (simp add: 2 3)
qed

text \<open>
  C4 asks that the counts of the type breakdown sum to \<open>storeCount\<close>. For three
  stores at one place, the first tagged \<open>shop=constructor\<close>, the read of
  \<open>types["constructor"]\<close> finds the inherited function, the value written is a
  string, and the counts of the type breakdown sum to \<open>2\<close> while \<open>storeCount\<close> and
  the size breakdown give \<open>3\<close>.
\<close>

theorem types_breakdown_inherited_key:
  "\<exists>s. clusterSummary (map toStore inherited_key_elements) [0, 1, 2] 0 = Inr s \<and>
        types s = [(''constructor'', Text), (''bakery'', Count 2)] \<and>
        count_sum (types s) = 2 \<and> storeCount s = 3 \<and> count_sum (sizes s) = 3"
proof -
  let ?fs = "map toStore inherited_key_elements"
  have fs: "map (\<lambda>i. ?fs ! i) [0, 1, 2] = ?fs" by (simp add: inherited_key_elements_def)
  have t: "calc_types ?fs = [(''constructor'', Text), (''bakery'', Count 2)]"
    by (simp add: inherited_key_elements_def toStore_def or_else_def calc_types_def
        increment_def get_prop_def put_prop_def type_key_def prototype_names_def)
  have z: "count_sum (calc_sizes ?fs) = 3"
    using calc_sizes_sum [of ?fs] by (simp add: inherited_key_elements_def)
  have ct: "count_sum [(''constructor'', Text), (''bakery'', Count 2)] = 2"
    by (simp add: count_sum_def)
  have "\<not> list_ex (\<lambda>i. length ?fs \<le> i) [0, 1, 2]"
    by (simp add: inherited_key_elements_def)
  then show ?thesis
    unfolding clusterSummary_def Let_def fs by (simp add: t z ct) (simp add: inherited_key_elements_def)
qed

section \<open>Properties of the clusterer\<close>

text \<open>
  An expansion changes no state but that of the points it puts into its own cluster:
  a point of a cluster stays there, and every pending point ends in some cluster.
\<close>

declare expand.simps [simp del]

lemma expand_Nil: "expand nb m cid st [] = st"
  by (simp add: expand.simps)

lemma expand_join:
  "q < length st \<Longrightarrow> \<not> is_assigned (st ! q) \<Longrightarrow>
   expand nb m cid st (q # pending) =
     expand nb m cid (st[q := Assigned cid])
       (if m \<le> int (length (nb q)) then pending @ filter (\<lambda>r. r \<notin> set pending) (nb q)
        else pending)"
  by (simp add: expand.simps)

lemma expand_skip:
  "\<not> (q < length st \<and> \<not> is_assigned (st ! q)) \<Longrightarrow>
   expand nb m cid st (q # pending) = expand nb m cid st pending"
  by (subst expand.simps) auto

lemma length_expand: "length (expand nb m cid st pending) = length st"
  by (induction nb m cid st pending rule: expand.induct) (simp_all add: expand.simps)

lemma expand_keeps_assigned:
  "i < length st \<Longrightarrow> st ! i = Assigned c \<Longrightarrow> expand nb m cid st pending ! i = Assigned c"
proof (induction nb m cid st pending rule: expand.induct)
  case (1 nb m cid st)
  then show ?case by (simp add: expand_Nil)
next
  case (2 nb m cid st q pending)
  show ?case
  proof (cases "q < length st \<and> \<not> is_assigned (st ! q)")
    case True
    with "2.prems" have "i \<noteq> q" by auto
    with True "2.prems" "2.IH"(1) show ?thesis by (simp add: expand_join)
  next
    case False
    with "2.prems" "2.IH"(2) show ?thesis by (simp add: expand_skip)
  qed
qed

lemma expand_new_assigned:
  "i < length st \<Longrightarrow> expand nb m cid st pending ! i = Assigned c \<Longrightarrow>
   st ! i = Assigned c \<or> c = cid"
proof (induction nb m cid st pending rule: expand.induct)
  case (1 nb m cid st)
  then show ?case by (simp add: expand_Nil)
next
  case (2 nb m cid st q pending)
  show ?case
  proof (cases "q < length st \<and> \<not> is_assigned (st ! q)")
    case True
    with "2.prems" "2.IH"(1) have "st[q := Assigned cid] ! i = Assigned c \<or> c = cid"
      by (simp add: expand_join)
    then show ?thesis using "2.prems"(1) by (cases "i = q") auto
  next
    case False
    with "2.prems" "2.IH"(2) show ?thesis by (simp add: expand_skip)
  qed
qed

lemma expand_other_states:
  "i < length st \<Longrightarrow> \<not> is_assigned (expand nb m cid st pending ! i) \<Longrightarrow>
   expand nb m cid st pending ! i = st ! i"
proof (induction nb m cid st pending rule: expand.induct)
  case (1 nb m cid st)
  then show ?case by (simp add: expand_Nil)
next
  case (2 nb m cid st q pending)
  show ?case
  proof (cases "q < length st \<and> \<not> is_assigned (st ! q)")
    case True
    with "2.prems" "2.IH"(1)
    have e: "expand nb m cid st (q # pending) ! i = st[q := Assigned cid] ! i"
      by (simp add: expand_join)
    show ?thesis
    proof (cases "i = q")
      case True
      with e "2.prems" show ?thesis by simp
    next
      case False
      with e show ?thesis by simp
    qed
  next
    case False
    with "2.prems" "2.IH"(2) show ?thesis by (simp add: expand_skip)
  qed
qed

lemma expand_assigns_pending:
  "q \<in> set pending \<Longrightarrow> q < length st \<Longrightarrow> is_assigned (expand nb m cid st pending ! q)"
proof (induction nb m cid st pending rule: expand.induct)
  case (1 nb m cid st)
  then show ?case by simp
next
  case (2 nb m cid st p pending)
  show ?case
  proof (cases "p < length st \<and> \<not> is_assigned (st ! p)")
    case True
    let ?st = "st[p := Assigned cid]"
    let ?pd = "if m \<le> int (length (nb p)) then pending @ filter (\<lambda>r. r \<notin> set pending) (nb p)
               else pending"
    have e: "expand nb m cid st (p # pending) = expand nb m cid ?st ?pd"
      using True by (simp add: expand_join)
    show ?thesis
    proof (cases "q = p")
      case True
      have "expand nb m cid ?st ?pd ! p = Assigned cid"
        using \<open>p < length st \<and> \<not> is_assigned (st ! p)\<close>
        by (intro expand_keeps_assigned) simp_all
      with e True show ?thesis by simp
    next
      case False
      with "2.prems" have "q \<in> set ?pd" by auto
      with "2.IH"(1) [OF True] "2.prems"(2) e show ?thesis by simp
    qed
  next
    case False
    have e: "expand nb m cid st (p # pending) = expand nb m cid st pending"
      using False by (simp add: expand_skip)
    show ?thesis
    proof (cases "q = p")
      case True
      with False "2.prems" obtain c where "st ! q = Assigned c"
        by (cases "st ! q") auto
      with "2.prems"(2) have "expand nb m cid st pending ! q = Assigned c"
        by (intro expand_keeps_assigned)
      with e show ?thesis by simp
    next
      case False
      with "2.prems" have "q \<in> set pending" by auto
      with "2.IH"(2) \<open>\<not> (p < length st \<and> \<not> is_assigned (st ! p))\<close> "2.prems"(2) e
      show ?thesis by simp
    qed
  qed
qed


text \<open>
  The scan as a loop with an invariant: a property that holds at the start and that
  both kinds of step keep holds at the end.
\<close>

lemma scan_invariant:
  assumes "P st k"
    and "\<And>st k p. P st k \<Longrightarrow> p < length st \<Longrightarrow> st ! p = Unvisited \<Longrightarrow>
           int (length (nb p)) < m \<Longrightarrow> P (st[p := NoiseCandidate]) k"
    and "\<And>st k p. P st k \<Longrightarrow> p < length st \<Longrightarrow> st ! p = Unvisited \<Longrightarrow>
           \<not> int (length (nb p)) < m \<Longrightarrow> P (expand nb m k st (nb p)) (Suc k)"
  shows "P (fst (scan nb m ps (st, k))) (snd (scan nb m ps (st, k)))"
  using assms(1)
proof (induction ps arbitrary: st k)
  case Nil
  then show ?case by simp
next
  case (Cons p ps)
  show ?case
  proof (cases "p < length st \<and> st ! p = Unvisited")
    case True
    show ?thesis
    proof (cases "int (length (nb p)) < m")
      case True
      with \<open>p < length st \<and> st ! p = Unvisited\<close> Cons.prems
      have "P (st[p := NoiseCandidate]) k" by (intro assms(2)) simp_all
      from Cons.IH [OF this] True \<open>p < length st \<and> st ! p = Unvisited\<close>
      show ?thesis by simp
    next
      case False
      with \<open>p < length st \<and> st ! p = Unvisited\<close> Cons.prems
      have "P (expand nb m k st (nb p)) (Suc k)" by (intro assms(3)) simp_all
      from Cons.IH [OF this] False \<open>p < length st \<and> st ! p = Unvisited\<close>
      show ?thesis by simp
    qed
  next
    case False
    with Cons.IH [OF Cons.prems] show ?thesis by auto
  qed
qed

lemma length_scan: "length (fst (scan nb m ps (st, k))) = length st"
proof -
  have "length (fst (scan nb m ps (st, k))) = length st \<and> True"
    by (rule scan_invariant [where P = "\<lambda>st' k'. length st' = length st \<and> True"])
      (simp_all add: length_expand)
  then show ?thesis by simp
qed

lemma scan_keeps_visited:
  assumes "i < length st" "st ! i \<noteq> Unvisited"
  shows "fst (scan nb m ps (st, k)) ! i \<noteq> Unvisited"
proof -
  have "length (fst (scan nb m ps (st, k))) = length st \<and>
        fst (scan nb m ps (st, k)) ! i \<noteq> Unvisited"
  proof (rule scan_invariant [where P = "\<lambda>st' k'. length st' = length st \<and> st' ! i \<noteq> Unvisited"])
    show "length st = length st \<and> st ! i \<noteq> Unvisited" using assms by simp
  next
    fix st' k' p
    assume "length st' = length st \<and> st' ! i \<noteq> Unvisited" "p < length st'"
    then show "length (st'[p := NoiseCandidate]) = length st \<and>
               st'[p := NoiseCandidate] ! i \<noteq> Unvisited"
      by (cases "i = p") simp_all
  next
    fix st' k' p
    assume a: "length st' = length st \<and> st' ! i \<noteq> Unvisited"
    have "expand nb m k' st' (nb p) ! i \<noteq> Unvisited"
    proof (cases "is_assigned (expand nb m k' st' (nb p) ! i)")
      case True
      then show ?thesis by auto
    next
      case False
      with a assms(1) have "expand nb m k' st' (nb p) ! i = st' ! i"
        by (intro expand_other_states) simp_all
      with a show ?thesis by simp
    qed
    with a show "length (expand nb m k' st' (nb p)) = length st \<and>
                 expand nb m k' st' (nb p) ! i \<noteq> Unvisited"
      by (simp add: length_expand)
  qed
  then show ?thesis by simp
qed

lemma scan_visits:
  assumes "p \<in> set ps" "p < length st" "\<forall>q < length st. q \<in> set (nb q)"
  shows "fst (scan nb m ps (st, k)) ! p \<noteq> Unvisited"
  using assms
proof (induction ps arbitrary: st k)
  case Nil
  then show ?case by simp
next
  case (Cons q ps)
  show ?case
  proof (cases "p = q")
    case True
    show ?thesis
    proof (cases "st ! p = Unvisited")
      case u: True
      show ?thesis
      proof (cases "int (length (nb p)) < m")
        case True
        have "fst (scan nb m ps (st[p := NoiseCandidate], k)) ! p \<noteq> Unvisited"
          using Cons.prems(2) by (intro scan_keeps_visited) simp_all
        with True u \<open>p = q\<close> Cons.prems(2) show ?thesis by simp
      next
        case False
        have "p \<in> set (nb p)" using Cons.prems by simp
        then have "is_assigned (expand nb m k st (nb p) ! p)"
          using Cons.prems(2) by (rule expand_assigns_pending)
        then have "expand nb m k st (nb p) ! p \<noteq> Unvisited" by auto
        then have "fst (scan nb m ps (expand nb m k st (nb p), Suc k)) ! p \<noteq> Unvisited"
          using Cons.prems(2) by (intro scan_keeps_visited) (simp_all add: length_expand)
        with False u \<open>p = q\<close> Cons.prems(2) show ?thesis by simp
      qed
    next
      case False
      then have "fst (scan nb m ps (st, k)) ! p \<noteq> Unvisited"
        using Cons.prems(2) by (intro scan_keeps_visited) simp_all
      with False \<open>p = q\<close> show ?thesis by simp
    qed
  next
    case False
    with Cons.prems have in_ps: "p \<in> set ps" by simp
    show ?thesis
    proof (cases "q < length st \<and> st ! q = Unvisited")
      case u: True
      show ?thesis
      proof (cases "int (length (nb q)) < m")
        case True
        have "fst (scan nb m ps (st[q := NoiseCandidate], k)) ! p \<noteq> Unvisited"
          using in_ps Cons.prems(2,3) by (intro Cons.IH) simp_all
        with True u show ?thesis by simp
      next
        case False
        have "fst (scan nb m ps (expand nb m k st (nb q), Suc k)) ! p \<noteq> Unvisited"
          using in_ps Cons.prems(2,3) by (intro Cons.IH) (simp_all add: length_expand)
        with False u show ?thesis by simp
      qed
    next
      case False
      have "fst (scan nb m ps (st, k)) ! p \<noteq> Unvisited"
        using in_ps Cons.prems(2,3) by (intro Cons.IH)
      with False show ?thesis by auto
    qed
  qed
qed

lemma scan_cluster_ids:
  assumes "\<forall>i < length st. \<forall>c. st ! i = Assigned c \<longrightarrow> c < k"
  shows "\<forall>i < length st. \<forall>c. fst (scan nb m ps (st, k)) ! i = Assigned c \<longrightarrow>
           c < snd (scan nb m ps (st, k))"
proof -
  let ?P = "\<lambda>st' k'. length st' = length st \<and> (\<forall>i < length st. \<forall>c. st' ! i = Assigned c \<longrightarrow> c < k')"
  have "?P (fst (scan nb m ps (st, k))) (snd (scan nb m ps (st, k)))"
  proof (rule scan_invariant [where P = ?P])
    show "?P st k" using assms by simp
  next
    fix st' k' p
    assume a: "?P st' k'" and p: "p < length st'"
    show "?P (st'[p := NoiseCandidate]) k'"
    proof (intro conjI allI impI)
      show "length (st'[p := NoiseCandidate]) = length st" using a by simp
    next
      fix i c
      assume "i < length st" "st'[p := NoiseCandidate] ! i = Assigned c"
      with a p show "c < k'" by (cases "i = p") auto
    qed
  next
    fix st' k' p
    assume a: "?P st' k'"
    show "?P (expand nb m k' st' (nb p)) (Suc k')"
    proof (intro conjI allI impI)
      show "length (expand nb m k' st' (nb p)) = length st" using a by (simp add: length_expand)
    next
      fix i c
      assume i: "i < length st" and "expand nb m k' st' (nb p) ! i = Assigned c"
      with a have "st' ! i = Assigned c \<or> c = k'"
        by (intro expand_new_assigned) simp_all
      with a i show "c < Suc k'" by (auto simp: less_Suc_eq)
    qed
  qed
  then show ?thesis by simp
qed


text \<open>The neighbourhoods are lists of distinct indices of points, the point itself among them.\<close>

lemma neighborhood_range: "q \<in> set (neighborhood d pts e p) \<Longrightarrow> q < length pts"
  by (simp add: neighborhood_def)

lemma neighborhood_self: "p < length pts \<Longrightarrow> p \<in> set (neighborhood d pts e p)"
  by (simp add: neighborhood_def)

lemma distinct_neighborhood: "distinct (neighborhood d pts e p)"
  by (simp add: neighborhood_def)

lemma DBSCAN_run_Inr:
  assumes "DBSCAN_run pts e m d = Inr (clusters, noise)"
  shows "0 < e \<and> 1 \<le> m \<and> pts \<noteq> [] \<and>
         clusters = map (\<lambda>c. filter (\<lambda>i. fst (scan (neighborhood d pts e) m [0..<length pts]
                                 (replicate (length pts) Unvisited, 0)) ! i = Assigned c)
                               [0..<length pts])
                      [0..<snd (scan (neighborhood d pts e) m [0..<length pts]
                                 (replicate (length pts) Unvisited, 0))] \<and>
         noise = filter (\<lambda>i. fst (scan (neighborhood d pts e) m [0..<length pts]
                                 (replicate (length pts) Unvisited, 0)) ! i = NoiseCandidate)
                   [0..<length pts]"
  using assms by (auto simp: DBSCAN_run_def Let_def split_beta split: if_splits)

lemma DBSCAN_run_returns:
  assumes "0 < e" "1 \<le> m" "pts \<noteq> []"
  shows "\<exists>clusters noise. DBSCAN_run pts e m d = Inr (clusters, noise)"
  using assms by (simp add: DBSCAN_run_def Let_def split_beta)

text \<open>
  C1: after a run of the clusterer every index of a point is either in the noise set
  and in no cluster, or in exactly one cluster and not in the noise set; and no index
  is listed twice.
\<close>

theorem clusters_and_noise_partition:
  assumes "DBSCAN_run pts e m d = Inr (clusters, noise)" and "i < length pts"
  shows "((i \<in> set noise \<and> (\<forall>c < length clusters. i \<notin> set (clusters ! c))) \<or>
          (i \<notin> set noise \<and>
           (\<exists>c < length clusters. i \<in> set (clusters ! c) \<and>
              (\<forall>c' < length clusters. i \<in> set (clusters ! c') \<longrightarrow> c' = c)))) \<and>
         distinct noise \<and> (\<forall>c < length clusters. distinct (clusters ! c))"
proof -
  let ?n = "length pts"
  let ?r = "scan (neighborhood d pts e) m [0..<?n] (replicate ?n Unvisited, 0)"
  let ?st = "fst ?r" and ?k = "snd ?r"
  note r = DBSCAN_run_Inr [OF assms(1)]
  have cl: "clusters = map (\<lambda>c. filter (\<lambda>i. ?st ! i = Assigned c) [0..<?n]) [0..<?k]"
    and no: "noise = filter (\<lambda>i. ?st ! i = NoiseCandidate) [0..<?n]"
    using r by simp_all
  have len: "length clusters = ?k" by (simp add: cl)
  have mem: "j \<in> set (clusters ! c) \<longleftrightarrow> j < ?n \<and> ?st ! j = Assigned c" if "c < ?k" for j c
    using that by (simp add: cl)
  have visited: "?st ! i \<noteq> Unvisited"
    using assms(2) by (intro scan_visits) (simp_all add: neighborhood_self)
  have ids: "c < ?k" if "?st ! i = Assigned c" for c
    using scan_cluster_ids [of "replicate ?n Unvisited" 0 "neighborhood d pts e" m "[0..<?n]"]
      assms(2) that by simp
  have dist: "distinct noise \<and> (\<forall>c < length clusters. distinct (clusters ! c))"
    by (simp add: cl no)
  show ?thesis
  proof (cases "?st ! i")
    case Unvisited
    with visited show ?thesis by simp
  next
    case NoiseCandidate
    then have "i \<in> set noise" using assms(2) by (simp add: no)
    moreover have "\<forall>c < length clusters. i \<notin> set (clusters ! c)"
      using NoiseCandidate by (simp add: len mem)
    ultimately show ?thesis using dist by blast
  next
    case (Assigned c)
    then have "i \<notin> set noise" by (simp add: no)
    moreover have "c < length clusters" using ids [OF Assigned] by (simp add: len)
    moreover have "i \<in> set (clusters ! c)"
      using Assigned assms(2) ids [OF Assigned] by (simp add: mem)
    moreover have "\<forall>c' < length clusters. i \<in> set (clusters ! c') \<longrightarrow> c' = c"
      using Assigned by (simp add: len mem)
    ultimately show ?thesis using dist by blast
  qed
qed

text \<open>
  The run on the sample points: the three shops at one place form cluster \<open>0\<close>, the
  fourth, half the globe away, is noise.
\<close>

lemma far_apart: "haversine_real 0 0 0 180 = 6371000 * pi"
  by (simp add: haversine_real_def hav_def atan2_def)

lemma far_apart': "haversine_real 0 180 0 0 = 6371000 * pi"
  using haversine_real_commute [of 0 180 0 0] far_apart by simp

lemma not_near: "\<not> 6371000 * pi \<le> (500::real)"
  using pi_ge_two by simp

lemma upt4: "[0..<4] = [0, 1, 2, 3::nat]"
  by code_simp

lemma replicate4: "replicate 4 x = [x, x, x, x]"
  by (simp add: numeral_eq_Suc)

lemma sample_points:
  "map (\<lambda>s. (Num (lat s), Num (lng s))) (map toStore sample_elements) =
     [(Num 0, Num 0), (Num 0, Num 0), (Num 0, Num 0), (Num 0, Num 180)]"
  by (simp add: sample_elements_def toStore_def)

lemma sample_nb:
  fixes pts defines "pts \<equiv> [(Num 0, Num 0), (Num 0, Num 0), (Num 0, Num 0), (Num 0, Num 180)]"
  shows "neighborhood haversine pts 500 0 = [0, 1, 2]"
    and "neighborhood haversine pts 500 (Suc 0) = [0, 1, 2]"
    and "neighborhood haversine pts 500 2 = [0, 1, 2]"
    and "neighborhood haversine pts 500 3 = [3]"
  unfolding pts_def neighborhood_def
  by (simp_all add: upt4 haversine_finite haversine_real_self far_apart far_apart' not_near)



lemma sample_expand:
  fixes pts defines "pts \<equiv> [(Num 0, Num 0), (Num 0, Num 0), (Num 0, Num 0), (Num 0, Num 180)]"
  shows "expand (neighborhood haversine pts 500) 3 0 [Unvisited, Unvisited, Unvisited, Unvisited]
           [0, Suc 0, 2]
    = [Assigned 0, Assigned 0, Assigned 0, Unvisited]"
proof -
  let ?nb = "neighborhood haversine pts 500"
  note nb = sample_nb [folded pts_def]
  have "expand ?nb 3 0 [Unvisited, Unvisited, Unvisited, Unvisited] [0, Suc 0, 2]
      = expand ?nb 3 0 [Assigned 0, Unvisited, Unvisited, Unvisited] [1, 2, 0]"
    by (subst expand_join) (simp_all add: nb)
  also have "\<dots> = expand ?nb 3 0 [Assigned 0, Assigned 0, Unvisited, Unvisited] [2, 0, 1]"
    by (subst expand_join) (simp_all add: nb)
  also have "\<dots> = expand ?nb 3 0 [Assigned 0, Assigned 0, Assigned 0, Unvisited] [0, 1, 2]"
    by (subst expand_join) (simp_all add: nb)
  also have "\<dots> = expand ?nb 3 0 [Assigned 0, Assigned 0, Assigned 0, Unvisited] [1, 2]"
    by (subst expand_skip) simp_all
  also have "\<dots> = expand ?nb 3 0 [Assigned 0, Assigned 0, Assigned 0, Unvisited] [2]"
    by (subst expand_skip) simp_all
  also have "\<dots> = expand ?nb 3 0 [Assigned 0, Assigned 0, Assigned 0, Unvisited] []"
    by (subst expand_skip) simp_all
  finally show ?thesis by (simp add: expand_Nil)
qed

lemma sample_scan:
  fixes pts defines "pts \<equiv> [(Num 0, Num 0), (Num 0, Num 0), (Num 0, Num 0), (Num 0, Num 180)]"
  shows "scan (neighborhood haversine pts 500) 3 [0, 1, 2, 3]
           ([Unvisited, Unvisited, Unvisited, Unvisited], 0)
         = ([Assigned 0, Assigned 0, Assigned 0, NoiseCandidate], 1)"
  by (simp add: sample_nb [folded pts_def] sample_expand [folded pts_def])



lemma sample_run:
  "DBSCAN_run [(Num 0, Num 0), (Num 0, Num 0), (Num 0, Num 0), (Num 0, Num 180)] 500 3 haversine
   = Inr ([[0, 1, 2]], [3])"
proof -
  have n: "length [(Num 0, Num 0), (Num 0, Num 0), (Num 0, Num 0), (Num 0, Num (180::real))] = 4"
    by simp
  have u: "[0..<1] = [0::nat]" by simp
  show ?thesis
    unfolding DBSCAN_run_def Let_def n upt4 replicate4 sample_scan prod.case u
    by simp
qed


theorem clusters_and_noise_partition_witness:
  "DBSCAN_run [(Num 0, Num 0), (Num 0, Num 0), (Num 0, Num 0), (Num 0, Num 180)] 500 3 haversine
     = Inr ([[0, 1, 2]], [3]) \<and>
   (3 \<in> set [3::nat] \<and> 3 \<notin> set ([[0, 1, 2::nat]] ! 0)) \<and>
   (0 \<notin> set [3::nat] \<and> 0 \<in> set ([[0, 1, 2::nat]] ! 0))"
  using clusters_and_noise_partition [OF sample_run, of 3]
    clusters_and_noise_partition [OF sample_run, of 0] sample_run
  by simp

text \<open>
  C8: with \<open>eps \<le> 0\<close> or \<open>minPts < 1\<close> the clusterer fails with \<open>InvalidParameter\<close>,
  whatever the points: nothing is clustered.
\<close>

theorem invalid_parameter:
  assumes "e \<le> 0 \<or> m < 1"
  shows "DBSCAN_run pts e m d = Inl InvalidParameter"
  using assms by (simp add: DBSCAN_run_def)

theorem invalid_parameter_witness:
  "DBSCAN_run [(Num 0, Num 0)] 0 3 haversine = Inl InvalidParameter \<and>
   DBSCAN_run [(Num 0, Num 0)] 500 0 haversine = Inl InvalidParameter \<and>
   DBSCAN_run [(Num 0, Num 0)] (- 1) (- 1) haversine = Inl InvalidParameter"
proof -
  have "(0::real) \<le> 0 \<or> (3::int) < 1" "(500::real) \<le> 0 \<or> (0::int) < 1"
    "(- 1::real) \<le> 0 \<or> (- 1::int) < 1"
    by simp_all
  then show ?thesis by (simp add: invalid_parameter)
qed

text \<open>
  C6: on an empty list of elements the run ends at once with \<open>InvalidInput\<close>, and
  returns neither clusters nor noise.
\<close>

theorem no_stores_is_invalid_input: "analyzeLocation [] = Inl InvalidInput"
  by (simp add: analyzeLocation_def)

section \<open>The size of the clusters\<close>

text \<open>
  An expansion that starts closed and supported ends closed and supported, with
  nothing pending.
\<close>

lemma expand_closed_supported:
  assumes "\<forall>i. set (nb i) \<subseteq> {..<length st}" "set pending \<subseteq> {..<length st}"
    and "closed_under nb m st pending" "supported nb m st pending"
  shows "closed_under nb m (expand nb m cid st pending) [] \<and>
         supported nb m (expand nb m cid st pending) []"
  using assms
proof (induction nb m cid st pending rule: expand.induct)
  case (1 nb m cid st)
  then show ?case by (simp add: expand_Nil)
next
  case (2 nb m cid st q pending)
  from "2.prems"(2) have q: "q < length st" by simp
  show ?case
  proof (cases "\<not> is_assigned (st ! q)")
    case True
    let ?st = "st[q := Assigned cid]"
    let ?pd = "if m \<le> int (length (nb q)) then pending @ filter (\<lambda>r. r \<notin> set pending) (nb q)
               else pending"
    have e: "expand nb m cid st (q # pending) = expand nb m cid ?st ?pd"
      using q True by (simp add: expand_join)
    have grow: "in_reach ?st ?pd i" if "in_reach st (q # pending) i" "i < length st" for i
      using that q by (cases "i = q") (auto simp: in_reach_def)
    have orig: "in_reach st (q # pending) i \<or> (is_core nb m q \<and> i \<in> set (nb q))"
      if "in_reach ?st ?pd i" "i < length st" for i
      using that q by (cases "i = q") (auto simp: in_reach_def is_core_def split: if_splits)
    have rq: "in_reach ?st ?pd q" using q by (simp add: in_reach_def)
    have 1: "\<forall>i. set (nb i) \<subseteq> {..<length ?st}" using "2.prems"(1) by simp
    have 2: "set ?pd \<subseteq> {..<length ?st}" using "2.prems"(1,2) by auto
    have 3: "closed_under nb m ?st ?pd"
      unfolding closed_under_def
    proof (intro allI impI ballI)
      fix i j
      assume i: "i < length ?st" and a: "is_assigned (?st ! i) \<and> is_core nb m i"
        and j: "j \<in> set (nb i)"
      from j "2.prems"(1) have jn: "j < length st" by auto
      show "in_reach ?st ?pd j"
      proof (cases "i = q")
        case True
        with a j show ?thesis by (auto simp: in_reach_def is_core_def)
      next
        case False
        with i a have "is_assigned (st ! i) \<and> is_core nb m i" by simp
        with "2.prems"(3) i j have "in_reach st (q # pending) j"
          by (auto simp: closed_under_def)
        then show ?thesis using jn by (rule grow)
      qed
    qed
    have 4: "supported nb m ?st ?pd"
      unfolding supported_def
    proof (intro allI impI)
      fix i
      assume i: "i < length ?st" and a: "in_reach ?st ?pd i \<and> \<not> is_core nb m i"
      from i have il: "i < length st" by simp
      from a orig [OF _ il]
      consider "in_reach st (q # pending) i" | "is_core nb m q" "i \<in> set (nb q)" by blast
      then show "\<exists>j < length ?st. is_core nb m j \<and> i \<in> set (nb j) \<and> in_reach ?st ?pd j"
      proof cases
        case 1
        with "2.prems"(4) il a obtain j where j: "j < length st" "is_core nb m j"
          "i \<in> set (nb j)" "in_reach st (q # pending) j"
          by (auto simp: supported_def)
        from grow [OF j(4) j(1)] j show ?thesis by auto
      next
        case 2
        with rq q show ?thesis by auto
      qed
    qed
    from "2.IH"(1) [OF conjI [OF q True] 1 2 3 4] e show ?thesis by simp
  next
    case False
    then have aq: "is_assigned (st ! q)" by simp
    have e: "expand nb m cid st (q # pending) = expand nb m cid st pending"
      using False by (simp add: expand_skip)
    have drop: "in_reach st pending i" if "in_reach st (q # pending) i" for i
      using that aq by (cases "i = q") (auto simp: in_reach_def)
    have 2: "set pending \<subseteq> {..<length st}" using "2.prems"(2) by simp
    have 3: "closed_under nb m st pending"
      using "2.prems"(3) drop unfolding closed_under_def by blast
    have 4: "supported nb m st pending"
      unfolding supported_def
    proof (intro allI impI)
      fix i
      assume i: "i < length st" and a: "in_reach st pending i \<and> \<not> is_core nb m i"
      then have "in_reach st (q # pending) i" by (auto simp: in_reach_def)
      with "2.prems"(4) i a obtain j where "j < length st" "is_core nb m j"
        "i \<in> set (nb j)" "in_reach st (q # pending) j"
        by (auto simp: supported_def)
      with drop show "\<exists>j < length st. is_core nb m j \<and> i \<in> set (nb j) \<and> in_reach st pending j"
        by blast
    qed
    have n: "\<not> (q < length st \<and> \<not> is_assigned (st ! q))" using aq by simp
    from "2.IH"(2) [OF n "2.prems"(1) 2 3 4] e show ?thesis by simp
  qed
qed


text \<open>
  With a symmetric distance and \<open>minPts \<le> 3\<close>, an unvisited point has no neighbour
  in a cluster when the state is closed and supported: such a neighbour would be a
  core point, having itself, its own core point and the unvisited point as
  neighbours, and would have pulled the unvisited point into its cluster. So a new
  cluster receives the whole neighbourhood of its first point.
\<close>

lemma finite_cluster_members: "finite (cluster_members st c)"
  by (simp add: cluster_members_def)

lemma no_assigned_neighbour:
  assumes sym: "\<forall>i < length st. \<forall>j < length st. j \<in> set (nb i) \<longleftrightarrow> i \<in> set (nb j)"
    and rng: "\<forall>i. set (nb i) \<subseteq> {..<length st}"
    and self: "\<forall>i < length st. i \<in> set (nb i)"
    and cl: "closed_under nb m st []" and su: "supported nb m st []"
    and m3: "m \<le> 3"
    and p: "p < length st" "\<not> is_assigned (st ! p)"
    and j: "j \<in> set (nb p)"
  shows "\<not> is_assigned (st ! j)"
proof
  assume a: "is_assigned (st ! j)"
  from j rng have jn: "j < length st" by auto
  from a p have jp: "j \<noteq> p" by auto
  from sym p(1) jn j have pj: "p \<in> set (nb j)" by blast
  show False
  proof (cases "is_core nb m j")
    case True
    with cl jn a pj have "in_reach st [] p" by (auto simp: closed_under_def)
    with p(2) show False by (simp add: in_reach_def)
  next
    case False
    with su jn a obtain j' where j': "j' < length st" "is_core nb m j'" "j \<in> set (nb j')"
      "in_reach st [] j'"
      by (auto simp: supported_def in_reach_def)
    from sym jn j'(1,3) have "j' \<in> set (nb j)" by blast
    moreover from self jn have "j \<in> set (nb j)" by blast
    ultimately have sub: "{j, j', p} \<subseteq> set (nb j)" using pj by simp
    from j'(2) False have "j' \<noteq> j" by auto
    moreover from j'(4) p(2) have "j' \<noteq> p" by (auto simp: in_reach_def)
    ultimately have "card {j, j', p} = 3" using jp by simp
    with card_mono [OF _ sub] have "3 \<le> card (set (nb j))" by simp
    also have "\<dots> \<le> length (nb j)" by (rule card_length)
    finally have "is_core nb m j" using m3 by (simp add: is_core_def)
    with False show False ..
  qed
qed

lemma scan_cluster_sizes:
  assumes sym: "\<forall>i < n. \<forall>j < n. j \<in> set (nb i) \<longleftrightarrow> i \<in> set (nb j)"
    and rng: "\<forall>i. set (nb i) \<subseteq> {..<n}"
    and self: "\<forall>i < n. i \<in> set (nb i)"
    and dist: "\<forall>i. distinct (nb i)"
    and m3: "m \<le> 3"
  shows "\<forall>c < snd (scan nb m ps (replicate n Unvisited, 0)).
           m \<le> int (card (cluster_members (fst (scan nb m ps (replicate n Unvisited, 0))) c))"
proof -
  let ?P = "\<lambda>st k. length st = n \<and> closed_under nb m st [] \<and> supported nb m st [] \<and>
                   (\<forall>c < k. m \<le> int (card (cluster_members st c)))"
  have "?P (fst (scan nb m ps (replicate n Unvisited, 0)))
           (snd (scan nb m ps (replicate n Unvisited, 0)))"
  proof (rule scan_invariant [where P = ?P])
    show "?P (replicate n Unvisited) 0"
      by (simp add: closed_under_def supported_def in_reach_def)
  next
    fix st k p
    assume inv: "?P st k" and p: "p < length st" "st ! p = Unvisited"
    have same: "is_assigned (st[p := NoiseCandidate] ! i) = is_assigned (st ! i)"
      if "i < length st" for i
      using that p by (cases "i = p") simp_all
    have mem: "cluster_members (st[p := NoiseCandidate]) c = cluster_members st c" for c
    proof -
      have "st[p := NoiseCandidate] ! i = Assigned c \<longleftrightarrow> st ! i = Assigned c"
        if "i < length st" for i
        using that p by (cases "i = p") simp_all
      then show ?thesis by (auto simp: cluster_members_def)
    qed
    have r: "in_reach (st[p := NoiseCandidate]) [] i = in_reach st [] i" if "i < length st" for i
      using same [OF that] by (simp add: in_reach_def)
    have "closed_under nb m (st[p := NoiseCandidate]) []"
      unfolding closed_under_def
    proof (intro allI impI ballI)
      fix i j
      assume i: "i < length (st[p := NoiseCandidate])"
        and a: "is_assigned (st[p := NoiseCandidate] ! i) \<and> is_core nb m i"
        and j: "j \<in> set (nb i)"
      from j rng inv have jn: "j < length st" by auto
      from i a same have "is_assigned (st ! i) \<and> is_core nb m i" by simp
      with inv i j have "in_reach st [] j" by (auto simp: closed_under_def)
      with r [OF jn] show "in_reach (st[p := NoiseCandidate]) [] j" by simp
    qed
    moreover have "supported nb m (st[p := NoiseCandidate]) []"
      unfolding supported_def
    proof (intro allI impI)
      fix i
      assume i: "i < length (st[p := NoiseCandidate])"
        and a: "in_reach (st[p := NoiseCandidate]) [] i \<and> \<not> is_core nb m i"
      from i a r have "in_reach st [] i \<and> \<not> is_core nb m i" by simp
      with inv i obtain j where j: "j < length st" "is_core nb m j" "i \<in> set (nb j)"
        "in_reach st [] j"
        by (auto simp: supported_def)
      with r [OF j(1)]
      show "\<exists>j < length (st[p := NoiseCandidate]). is_core nb m j \<and> i \<in> set (nb j) \<and>
              in_reach (st[p := NoiseCandidate]) [] j"
        by auto
    qed
    ultimately show "?P (st[p := NoiseCandidate]) k" using inv by (simp add: mem)
  next
    fix st k p
    assume inv: "?P st k" and p: "p < length st" "st ! p = Unvisited"
      and core: "\<not> int (length (nb p)) < m"
    let ?st = "expand nb m k st (nb p)"
    from inv have len: "length st = n" by simp
    have pc: "is_core nb m p" using core by (simp add: is_core_def)
    have pp: "p \<in> set (nb p)" using self p len by simp
    have 1: "\<forall>i. set (nb i) \<subseteq> {..<length st}" using rng len by simp
    have 2: "set (nb p) \<subseteq> {..<length st}" using 1 by simp
    have 3: "closed_under nb m st (nb p)"
      using inv by (auto simp: closed_under_def in_reach_def)
    have 4: "supported nb m st (nb p)"
      unfolding supported_def
    proof (intro allI impI)
      fix i
      assume i: "i < length st" and a: "in_reach st (nb p) i \<and> \<not> is_core nb m i"
      show "\<exists>j < length st. is_core nb m j \<and> i \<in> set (nb j) \<and> in_reach st (nb p) j"
      proof (cases "is_assigned (st ! i)")
        case True
        with inv i a obtain j where "j < length st" "is_core nb m j" "i \<in> set (nb j)"
          "in_reach st [] j"
          by (auto simp: supported_def in_reach_def)
        then show ?thesis by (auto simp: in_reach_def)
      next
        case False
        with a have "i \<in> set (nb p)" by (simp add: in_reach_def)
        with p(1) pc pp show ?thesis by (auto simp: in_reach_def)
      qed
    qed
    note cs = expand_closed_supported [OF 1 2 3 4, of k]
    have old: "m \<le> int (card (cluster_members ?st c))" if "c < k" for c
    proof -
      have "cluster_members st c \<subseteq> cluster_members ?st c"
        by (auto simp: cluster_members_def length_expand expand_keeps_assigned)
      then have "card (cluster_members st c) \<le> card (cluster_members ?st c)"
        by (intro card_mono finite_cluster_members)
      moreover from inv that have "m \<le> int (card (cluster_members st c))" by simp
      ultimately show ?thesis by linarith
    qed
    have new: "m \<le> int (card (cluster_members ?st k))"
    proof -
      have "set (nb p) \<subseteq> cluster_members ?st k"
      proof
        fix j
        assume j: "j \<in> set (nb p)"
        with 2 have jn: "j < length st" by auto
        from p(2) have np: "\<not> is_assigned (st ! p)" by simp
        have cl: "closed_under nb m st []" and su: "supported nb m st []" using inv by simp_all
        have free: "\<not> is_assigned (st ! j)"
          by (rule no_assigned_neighbour
              [OF sym [folded len] rng [folded len] self [folded len] cl su m3 p(1) np j])
        from j jn have "is_assigned (?st ! j)" by (rule expand_assigns_pending)
        then obtain c where c: "?st ! j = Assigned c" by (cases "?st ! j") simp_all
        from expand_new_assigned [OF jn c] free have "c = k" by auto
        with c jn show "j \<in> cluster_members ?st k"
          by (simp add: cluster_members_def length_expand)
      qed
      then have "card (set (nb p)) \<le> card (cluster_members ?st k)"
        by (intro card_mono finite_cluster_members)
      moreover have "card (set (nb p)) = length (nb p)"
        using dist by (simp add: distinct_card)
      ultimately show ?thesis using core by simp
    qed
    have "\<forall>c < Suc k. m \<le> int (card (cluster_members ?st c))"
    proof (intro allI impI)
      fix c assume "c < Suc k"
      then consider "c < k" | "c = k" by linarith
      then show "m \<le> int (card (cluster_members ?st c))"
      proof cases
        case 1 then show ?thesis by (rule old)
      next
        case 2 then show ?thesis using new by simp
      qed
    qed
    with cs len show "?P ?st (Suc k)" by (simp add: length_expand)
  qed
  then show ?thesis by simp
qed


lemma neighborhood_sym:
  assumes "\<forall>p q. d p q = d q p" "i < length pts" "j < length pts"
  shows "j \<in> set (neighborhood d pts e i) \<longleftrightarrow> i \<in> set (neighborhood d pts e j)"
proof -
  have "d (pts ! i) (pts ! j) = d (pts ! j) (pts ! i)" using assms(1) by blast
  then show ?thesis using assms(2,3) by (auto simp: neighborhood_def)
qed

lemma length_filter_upt: "length (filter P [0..<n]) = card {i. i < n \<and> P i}"
proof -
  have "distinct (filter P [0..<n])" by simp
  then have "length (filter P [0..<n]) = card (set (filter P [0..<n]))"
    by (rule distinct_card [symmetric])
  also have "set (filter P [0..<n]) = {i. i < n \<and> P i}" by auto
  finally show ?thesis .
qed

lemma DBSCAN_run_min_size:
  assumes "DBSCAN_run pts e m d = Inr (clusters, noise)"
    and "\<forall>p q. d p q = d q p" and "m \<le> 3"
  shows "\<forall>c \<in> set clusters. m \<le> int (length c)"
proof -
  let ?n = "length pts"
  let ?nb = "neighborhood d pts e"
  let ?r = "scan ?nb m [0..<?n] (replicate ?n Unvisited, 0)"
  let ?st = "fst ?r" and ?k = "snd ?r"
  note r = DBSCAN_run_Inr [OF assms(1)]
  have cl: "clusters = map (\<lambda>c. filter (\<lambda>i. ?st ! i = Assigned c) [0..<?n]) [0..<?k]"
    using r by simp
  have len: "length ?st = ?n" by (simp add: length_scan)
  have sym: "\<forall>i < ?n. \<forall>j < ?n. j \<in> set (?nb i) \<longleftrightarrow> i \<in> set (?nb j)"
    using neighborhood_sym [OF assms(2)] by blast
  have rng: "\<forall>i. set (?nb i) \<subseteq> {..<?n}" by (auto dest: neighborhood_range)
  have self: "\<forall>i < ?n. i \<in> set (?nb i)" by (simp add: neighborhood_self)
  have dist: "\<forall>i. distinct (?nb i)" by (simp add: distinct_neighborhood)
  note sz = scan_cluster_sizes [OF sym rng self dist assms(3), of "[0..<?n]"]
  show ?thesis
  proof
    fix c
    assume "c \<in> set clusters"
    then obtain k where k: "k < ?k" "c = filter (\<lambda>i. ?st ! i = Assigned k) [0..<?n]"
      by (auto simp: cl)
    have "length c = card (cluster_members ?st k)"
      unfolding k(2) length_filter_upt cluster_members_def len ..
    with sz k(1) show "m \<le> int (length c)" by simp
  qed
qed

lemma DBSCAN_run_in_range:
  assumes "DBSCAN_run pts e m d = Inr (clusters, noise)"
  shows "\<forall>c \<in> set clusters. \<forall>i \<in> set c. i < length pts"
  using DBSCAN_run_Inr [OF assms] by auto

lemma clusterSummary_in_range:
  assumes "\<forall>i \<in> set c. i < length fs"
  shows "\<exists>s. clusterSummary fs c idx = Inr s"
  using assms by (auto simp: clusterSummary_def Let_def list_ex_iff)

lemma summaries_returns:
  assumes "\<forall>c \<in> set cl. \<forall>i \<in> set c. i < length fs"
  shows "\<exists>cs. summaries fs idx cl = Inr cs"
  using assms
proof (induction cl arbitrary: idx)
  case Nil
  then show ?case by simp
next
  case (Cons c cl)
  from Cons.prems obtain s where s: "clusterSummary fs c idx = Inr s"
    using clusterSummary_in_range [of c fs idx] by auto
  from Cons.prems Cons.IH [of "Suc idx"] obtain cs where "summaries fs (Suc idx) cl = Inr cs"
    by auto
  with s show ?case by simp
qed

lemma summaries_storeCount:
  assumes "summaries fs idx cl = Inr cs"
  shows "map storeCount cs = map length cl"
  using assms
proof (induction cl arbitrary: idx cs)
  case Nil
  then show ?case by simp
next
  case (Cons c cl)
  from Cons.prems obtain s ss where s: "clusterSummary fs c idx = Inr s"
    and ss: "summaries fs (Suc idx) cl = Inr ss" and cs: "cs = s # ss"
    by (auto split: sum.splits)
  have "storeCount s = length c" by (subst clusterSummary_Inr [OF s]) simp
  with Cons.IH [OF ss] cs show ?case by simp
qed

text \<open>The pipeline fails on no input but the empty one.\<close>

lemma analyzeLocation_Inr:
  assumes "analyzeLocation elements = Inr (cs, noise)"
  shows "\<exists>clusters.
           DBSCAN_run (map (\<lambda>s. (Num (lat s), Num (lng s))) (map toStore elements)) eps minPts
             haversine = Inr (clusters, noise) \<and>
           clustersSummary (map toStore elements) clusters = Inr cs"
  using assms by (auto simp: analyzeLocation_def Let_def split: if_splits sum.splits)

lemma analyzeLocation_returns:
  assumes "elements \<noteq> []"
  shows "\<exists>cs noise. analyzeLocation elements = Inr (cs, noise)"
proof -
  let ?fs = "map toStore elements"
  let ?pts = "map (\<lambda>s. (Num (lat s), Num (lng s))) ?fs"
  have "?pts \<noteq> []" using assms by simp
  then obtain clusters noise where r: "DBSCAN_run ?pts eps minPts haversine = Inr (clusters, noise)"
    using DBSCAN_run_returns [of eps minPts ?pts haversine] by (auto simp: eps_def minPts_def)
  from DBSCAN_run_in_range [OF r] have "\<forall>c \<in> set clusters. \<forall>i \<in> set c. i < length ?fs"
    by simp
  from summaries_returns [OF this, of 0] obtain cs where "clustersSummary ?fs clusters = Inr cs"
    by (auto simp: clustersSummary_def)
  with r assms show ?thesis by (simp add: analyzeLocation_def Let_def)
qed

text \<open>The run on the sample elements: one cluster of three stores, one noise point.\<close>

lemma sample_analysis:
  "analyzeLocation sample_elements =
     Inr ([\<lparr> id_c = 0, centroid = (Num 0, Num 0), radiusMeters = Num 100, storeCount = 3,
             densityPerKm2 = Num (3 / (pi * 0.01)), densityScore = Num 100,
             types = [(''bakery'', Count 1), (''Supermarket'', Count 1), (''undefined'', Count 1)],
             sizes = [(''medium'', Count 1), (''large'', Count 1), (''small'', Count 1)],
             stores = take 3 (map toStore sample_elements) \<rparr>], [3])"
proof -
  have ne: "length sample_elements \<noteq> 0" by (simp add: sample_elements_def)
  show ?thesis
    unfolding analyzeLocation_def Let_def sample_points eps_def minPts_def sample_run
      sum.case prod.case clustersSummary_def summaries.simps sample_summary
    using ne by simp
qed

text \<open>
  C5: every cluster summary that a run returns has a \<open>storeCount\<close> of at least
  \<open>minPts\<close>, the parameter that the run gives to the clusterer.
\<close>

theorem clusters_have_minPts_stores:
  assumes "analyzeLocation elements = Inr (cs, noise)"
  shows "\<forall>s \<in> set cs. minPts \<le> int (storeCount s)"
proof -
  from analyzeLocation_Inr [OF assms] obtain clusters
    where r: "DBSCAN_run (map (\<lambda>s. (Num (lat s), Num (lng s))) (map toStore elements)) eps minPts
                haversine = Inr (clusters, noise)"
      and c: "clustersSummary (map toStore elements) clusters = Inr cs"
    by blast
  have sym: "\<forall>p q. haversine p q = haversine q p"
    using haversine_commute_general by auto
  have "minPts \<le> 3" by (simp add: minPts_def)
  from DBSCAN_run_min_size [OF r sym this]
  have "\<forall>c \<in> set clusters. minPts \<le> int (length c)" .
  moreover have "map storeCount cs = map length clusters"
    using c by (intro summaries_storeCount) (simp add: clustersSummary_def)
  ultimately show ?thesis
    by (metis (no_types, lifting) imageE image_eqI list.set_map)
qed

theorem clusters_have_minPts_stores_witness:
  "\<exists>cs noise. analyzeLocation sample_elements = Inr (cs, noise) \<and> map storeCount cs = [3] \<and>
     list_all (\<lambda>s. minPts \<le> int (storeCount s)) cs"
proof -
  obtain cs noise where a: "analyzeLocation sample_elements = Inr (cs, noise)"
    and c: "map storeCount cs = [3]"
    using sample_analysis by simp
  from clusters_have_minPts_stores [OF a] have "list_all (\<lambda>s. minPts \<le> int (storeCount s)) cs"
    by (simp add: list_all_iff)
  with a c show ?thesis by (intro exI [of _ cs] exI [of _ noise] conjI)
qed

text \<open>
  The bound \<open>minPts \<le> 3\<close> is needed. With \<open>minPts = 4\<close> and the distance of the table,
  point \<open>4\<close> is a core point whose other neighbours are all in the cluster of point
  \<open>0\<close> and are no core points; the clusterer gives point \<open>4\<close> a cluster of its own.
\<close>

lemma upt5: "[0..<5] = [0, 1, 2, 3, 4::nat]"
  by code_simp

lemma replicate5: "replicate 5 x = [x, x, x, x, x]"
  by (simp add: numeral_eq_Suc)

lemma star_nb:
  shows "neighborhood star_distance [0, 1, 2, 3, 4] 500 0 = [0, 1, 2, 3]"
    and "neighborhood star_distance [0, 1, 2, 3, 4] 500 (Suc 0) = [0, 1, 4]"
    and "neighborhood star_distance [0, 1, 2, 3, 4] 500 2 = [0, 2, 4]"
    and "neighborhood star_distance [0, 1, 2, 3, 4] 500 3 = [0, 3, 4]"
    and "neighborhood star_distance [0, 1, 2, 3, 4] 500 4 = [1, 2, 3, 4]"
  unfolding neighborhood_def
  by (simp_all add: upt5 star_distance_def star_links_def)

lemma star_expand_first:
  "expand (neighborhood star_distance [0, 1, 2, 3, 4] 500) 4 0
     [Unvisited, Unvisited, Unvisited, Unvisited, Unvisited] [0, Suc 0, 2, 3]
   = [Assigned 0, Assigned 0, Assigned 0, Assigned 0, Unvisited]"
proof -
  let ?nb = "neighborhood star_distance [0, 1, 2, 3, 4] 500"
  have "expand ?nb 4 0 [Unvisited, Unvisited, Unvisited, Unvisited, Unvisited] [0, Suc 0, 2, 3]
      = expand ?nb 4 0 [Assigned 0, Unvisited, Unvisited, Unvisited, Unvisited] [1, 2, 3, 0]"
    by (subst expand_join) (simp_all add: star_nb)
  also have "\<dots> = expand ?nb 4 0 [Assigned 0, Assigned 0, Unvisited, Unvisited, Unvisited] [2, 3, 0]"
    by (subst expand_join) (simp_all add: star_nb)
  also have "\<dots> = expand ?nb 4 0 [Assigned 0, Assigned 0, Assigned 0, Unvisited, Unvisited] [3, 0]"
    by (subst expand_join) (simp_all add: star_nb)
  also have "\<dots> = expand ?nb 4 0 [Assigned 0, Assigned 0, Assigned 0, Assigned 0, Unvisited] [0]"
    by (subst expand_join) (simp_all add: star_nb)
  also have "\<dots> = expand ?nb 4 0 [Assigned 0, Assigned 0, Assigned 0, Assigned 0, Unvisited] []"
    by (subst expand_skip) simp_all
  finally show ?thesis by (simp add: expand_Nil)
qed

lemma star_expand_second:
  "expand (neighborhood star_distance [0, 1, 2, 3, 4] 500) 4 (Suc 0)
     [Assigned 0, Assigned 0, Assigned 0, Assigned 0, Unvisited] [Suc 0, 2, 3, 4]
   = [Assigned 0, Assigned 0, Assigned 0, Assigned 0, Assigned 1]"
proof -
  let ?nb = "neighborhood star_distance [0, 1, 2, 3, 4] 500"
  let ?st = "[Assigned 0, Assigned 0, Assigned 0, Assigned 0, Unvisited]"
  let ?st' = "[Assigned 0, Assigned 0, Assigned 0, Assigned 0, Assigned 1]"
  have "expand ?nb 4 (Suc 0) ?st [Suc 0, 2, 3, 4] = expand ?nb 4 (Suc 0) ?st [2, 3, 4]"
    by (subst expand_skip) simp_all
  also have "\<dots> = expand ?nb 4 (Suc 0) ?st [3, 4]"
    by (subst expand_skip) simp_all
  also have "\<dots> = expand ?nb 4 (Suc 0) ?st [4]"
    by (subst expand_skip) simp_all
  also have "\<dots> = expand ?nb 4 (Suc 0) ?st' [1, 2, 3, 4]"
    by (subst expand_join) (simp_all add: star_nb)
  also have "\<dots> = expand ?nb 4 (Suc 0) ?st' [2, 3, 4]"
    by (subst expand_skip) simp_all
  also have "\<dots> = expand ?nb 4 (Suc 0) ?st' [3, 4]"
    by (subst expand_skip) simp_all
  also have "\<dots> = expand ?nb 4 (Suc 0) ?st' [4]"
    by (subst expand_skip) simp_all
  also have "\<dots> = expand ?nb 4 (Suc 0) ?st' []"
    by (subst expand_skip) simp_all
  finally show ?thesis by (simp add: expand_Nil)
qed

lemma star_scan:
  "scan (neighborhood star_distance [0, 1, 2, 3, 4] 500) 4 [0, 1, 2, 3, 4]
     ([Unvisited, Unvisited, Unvisited, Unvisited, Unvisited], 0)
   = ([Assigned 0, Assigned 0, Assigned 0, Assigned 0, Assigned 1], 2)"
  by (simp add: star_nb star_expand_first star_expand_second)

lemma star_run:
  "DBSCAN_run [0, 1, 2, 3, 4] 500 4 star_distance = Inr ([[0, 1, 2, 3], [4]], [])"
proof -
  have n: "length [0, 1, 2, 3, 4::int] = 5" by simp
  have u: "[0..<2] = [0, 1::nat]" by code_simp
  show ?thesis
    unfolding DBSCAN_run_def Let_def n upt5 replicate5 star_scan prod.case u
    by simp
qed

end
